theory Spec2Isabelle
  imports Complex_Main "HOL-Library.Multiset" "HOL-Library.Sublist"
begin

section \<open>Numbers\<close>

text \<open>
  A number of the program is a binary64 floating-point number: \<open>NaN\<close>, an infinity, or a
  finite value, given here as the rational it stands for (the two zeros are not told
  apart; no result below depends on the sign of a zero). Every arithmetic operation
  returns the exact result rounded to the nearest binary64 number, a tie going to the
  even one.
\<close>

datatype jsnum = NaN | NegInfinity | Finite rat | PosInfinity

fun js_less :: "jsnum \<Rightarrow> jsnum \<Rightarrow> bool" where
  \<comment> \<open>the operator \<^verbatim>\<open><\<close> on numbers: false as soon as an operand is \<open>NaN\<close>\<close>
  "js_less NaN _ = False"
| "js_less _ NaN = False"
| "js_less _ NegInfinity = False"
| "js_less NegInfinity _ = True"
| "js_less PosInfinity _ = False"
| "js_less (Finite x) PosInfinity = True"
| "js_less (Finite x) (Finite y) = (x < y)"

fun js_negate :: "jsnum \<Rightarrow> jsnum" where
  "js_negate NaN = NaN"
| "js_negate NegInfinity = PosInfinity"
| "js_negate PosInfinity = NegInfinity"
| "js_negate (Finite x) = Finite (- x)"

function bit_length :: "int \<Rightarrow> int" where
  "bit_length n = (if n \<le> 0 then 0 else bit_length (n div 2) + 1)"
  by pat_completeness auto
termination
  by (relation "measure nat") auto

declare bit_length.simps [simp del]

definition pow2 :: "int \<Rightarrow> rat" where
  "pow2 e = (if 0 \<le> e then 2 ^ nat e else 1 / 2 ^ nat (- e))"

definition binary_exponent :: "int \<Rightarrow> int \<Rightarrow> int" where
  \<comment> \<open>the largest \<open>e\<close> with \<open>2\<^sup>e \<le> p / q\<close>, for positive \<open>p\<close> and \<open>q\<close>\<close>
  "binary_exponent p q =
     (let e0 = bit_length p - bit_length q
      in if q * 2 ^ nat e0 \<le> p * 2 ^ nat (- e0) then e0 else e0 - 1)"

definition round_half_even :: "int \<Rightarrow> int \<Rightarrow> int" where
  \<comment> \<open>\<open>n / d\<close> rounded to the nearest integer, a tie to the even one\<close>
  "round_half_even n d =
     (let m = n div d; r = n mod d
      in if 2 * r < d then m
         else if d < 2 * r then m + 1
         else if even m then m else m + 1)"

definition to_double :: "int \<Rightarrow> int \<Rightarrow> jsnum" where
  \<comment> \<open>the binary64 number nearest to \<open>p / q\<close> (\<open>p\<close> not negative, \<open>q\<close> positive): 53 significant bits,
      least exponent \<open>-1022\<close>; the rounded value is \<open>m * 2\<^sup>e\<^sup>-\<^sup>5\<^sup>2\<close>, and it overflows to infinity
      when it reaches \<open>2\<^sup>1\<^sup>0\<^sup>2\<^sup>4\<close>\<close>
  "to_double p q =
     (if p = 0 then Finite 0
      else let e = max (binary_exponent p q) (- 1022);
               m = round_half_even (p * 2 ^ nat (52 - e)) (q * 2 ^ nat (e - 52))
           in if 2 ^ 1024 * 2 ^ nat (52 - e) \<le> m * 2 ^ nat (e - 52) then PosInfinity
              else Finite (of_int m * pow2 (e - 52)))"

definition round_rat :: "rat \<Rightarrow> jsnum" where
  \<comment> \<open>the binary64 number nearest to a rational\<close>
  "round_rat x =
     (let (p, q) = quotient_of x
      in if p < 0 then js_negate (to_double (- p) q) else to_double p q)"

fun js_sub :: "jsnum \<Rightarrow> jsnum \<Rightarrow> jsnum" where
  \<comment> \<open>the operator \<^verbatim>\<open>-\<close> on numbers\<close>
  "js_sub NaN _ = NaN"
| "js_sub _ NaN = NaN"
| "js_sub PosInfinity PosInfinity = NaN"
| "js_sub NegInfinity NegInfinity = NaN"
| "js_sub PosInfinity _ = PosInfinity"
| "js_sub NegInfinity _ = NegInfinity"
| "js_sub (Finite x) PosInfinity = NegInfinity"
| "js_sub (Finite x) NegInfinity = PosInfinity"
| "js_sub (Finite x) (Finite y) = round_rat (x - y)"

fun js_half :: "jsnum \<Rightarrow> jsnum" where
  \<comment> \<open>the quotient \<^verbatim>\<open>x / 2\<close>\<close>
  "js_half (Finite x) = round_rat (x / 2)"
| "js_half x = x"

section \<open>The reorder table of edit.js\<close>

text \<open>
  The table body \<^verbatim>\<open>#dndTable tbody\<close> is a mutable sequence of child elements. A DOM
  node has an identity of its own, so the children are node identifiers and the state of
  each node (its classes, the value of its position input) lives in a store indexed by
  the identifier. Only the direct children of the table body are modelled: rows of a
  table nested inside a cell are outside the model.
\<close>

type_synonym node = nat

record tr_node =
  dnd_row :: bool  \<comment> \<open>the element matches \<^verbatim>\<open>tr.dnd-row\<close>\<close>
  is_dragging :: bool  \<comment> \<open>the class \<^verbatim>\<open>is-dragging\<close>\<close>
  position_value :: "string option"
    \<comment> \<open>the value of the row's \<^verbatim>\<open>input[name="position[]"]\<close>; \<open>None\<close> when the row has no such input\<close>

record page =
  children :: "node list"  \<comment> \<open>the children of the table body, in document order\<close>
  attrs :: "node \<Rightarrow> tr_node"
  dragEl :: "node option"  \<comment> \<open>the module variable \<^verbatim>\<open>dragEl\<close>; \<open>None\<close> is \<^verbatim>\<open>null\<close>\<close>

record box =
  box_top :: jsnum  \<comment> \<open>\<^verbatim>\<open>getBoundingClientRect().top\<close>\<close>
  box_height :: jsnum  \<comment> \<open>\<^verbatim>\<open>getBoundingClientRect().height\<close>\<close>

text \<open>
  The layout (the box of every node) is the browser's, so each pointer event brings it
  along as a function, together with the pointer's \<^verbatim>\<open>clientY\<close>.
\<close>

subsection \<open>Numbers written into an input\<close>

text \<open>
  Assigning a number to \<^verbatim>\<open>input.value\<close> stores its string form. For the non-negative
  integers that occur here that is the decimal numeral without leading zeros.
\<close>

definition digit_char :: "nat \<Rightarrow> char" where
  "digit_char d = ''0123456789'' ! d"

fun ToString :: "nat \<Rightarrow> string" where
  "ToString n = (if n < 10 then [digit_char n] else ToString (n div 10) @ [digit_char (n mod 10)])"

declare ToString.simps [simp del]

definition is_digit :: "char \<Rightarrow> bool" where
  "is_digit c = (48 \<le> (of_char c :: nat) \<and> (of_char c :: nat) \<le> 57)"

definition digit_val :: "char \<Rightarrow> nat" where
  "digit_val c = of_char c - 48"

definition digits_value :: "string \<Rightarrow> nat" where
  "digits_value ds = foldl (\<lambda>a c. 10 * a + digit_val c) 0 ds"

subsection \<open>Selectors\<close>

definition querySelectorAll_rows :: "page \<Rightarrow> node list" where
  \<comment> \<open>\<^verbatim>\<open>tbody.querySelectorAll("tr.dnd-row")\<close>\<close>
  "querySelectorAll_rows p = filter (\<lambda>n. dnd_row (attrs p n)) (children p)"

definition querySelectorAll_not_dragging :: "page \<Rightarrow> node list" where
  \<comment> \<open>\<^verbatim>\<open>container.querySelectorAll("tr.dnd-row:not(.is-dragging)")\<close>\<close>
  "querySelectorAll_not_dragging p =
     filter (\<lambda>n. dnd_row (attrs p n) \<and> \<not> is_dragging (attrs p n)) (children p)"

definition querySelector_dragging :: "page \<Rightarrow> node option" where
  \<comment> \<open>\<^verbatim>\<open>tbody.querySelector("tr.dnd-row.is-dragging")\<close>: the first match, or \<^verbatim>\<open>null\<close>\<close>
  "querySelector_dragging p =
     find (\<lambda>n. dnd_row (attrs p n) \<and> is_dragging (attrs p n)) (children p)"

definition closest_dnd_row :: "page \<Rightarrow> node \<Rightarrow> node option" where
  \<comment> \<open>\<^verbatim>\<open>e.target.closest("tr.dnd-row")\<close>, where the argument is the child of the table body
      that holds the event's target\<close>
  "closest_dnd_row p t = (if dnd_row (attrs p t) then Some t else None)"

subsection \<open>updatePositions\<close>

definition set_position :: "page \<Rightarrow> node \<times> nat \<Rightarrow> page" where
  \<comment> \<open>the callback of \<^verbatim>\<open>forEach\<close>: \<^verbatim>\<open>if (pos) pos.value = i + 1\<close>\<close>
  "set_position p = (\<lambda>(tr, i).
     case position_value (attrs p tr) of
       None \<Rightarrow> p
     | Some _ \<Rightarrow> p\<lparr>attrs := (attrs p)(tr := (attrs p tr)\<lparr>position_value := Some (ToString (i + 1))\<rparr>)\<rparr>)"

definition updatePositions :: "page \<Rightarrow> page" where
  "updatePositions p =
     (let trs = querySelectorAll_rows p
      in foldl set_position p (zip trs [0..<length trs]))"

subsection \<open>getDragAfterElement\<close>

record closest =
  offset :: jsnum
  element :: "node option"  \<comment> \<open>\<open>None\<close> is \<^verbatim>\<open>undefined\<close>\<close>

definition reducer :: "(node \<Rightarrow> box) \<Rightarrow> jsnum \<Rightarrow> closest \<Rightarrow> node \<Rightarrow> closest" where
  \<comment> \<open>the callback of \<^verbatim>\<open>reduce\<close>; \<^verbatim>\<open>offset > closest.offset\<close> is \<^verbatim>\<open>closest.offset < offset\<close>\<close>
  "reducer rect y c child =
     (let b = rect child;
          off = js_sub (js_sub y (box_top b)) (js_half (box_height b))
      in if js_less off (Finite 0) \<and> js_less (offset c) off
         then \<lparr>offset = off, element = Some child\<rparr>
         else c)"

definition getDragAfterElement :: "(node \<Rightarrow> box) \<Rightarrow> page \<Rightarrow> jsnum \<Rightarrow> node option" where
  "getDragAfterElement rect container y =
     (let els = querySelectorAll_not_dragging container
      in element (foldl (reducer rect y) \<lparr>offset = NegInfinity, element = None\<rparr> els))"

subsection \<open>Moving a child\<close>

datatype dom_error = NotFoundError

definition appendChild :: "node \<Rightarrow> node list \<Rightarrow> node list" where
  \<comment> \<open>a node that is already a child is moved, not copied\<close>
  "appendChild new cs = remove1 new cs @ [new]"

definition insertBefore :: "node \<Rightarrow> node \<Rightarrow> node list \<Rightarrow> dom_error + node list" where
  \<comment> \<open>the reference node must be a child; inserting a node before itself changes nothing\<close>
  "insertBefore new ref cs =
     (if ref \<notin> set cs then Inl NotFoundError
      else if new = ref then Inr cs
      else let rest = remove1 new cs
           in Inr (takeWhile (\<lambda>n. n \<noteq> ref) rest @ new # dropWhile (\<lambda>n. n \<noteq> ref) rest))"

subsection \<open>The drag handlers\<close>

definition dragstart :: "node \<Rightarrow> page \<Rightarrow> page" where
  "dragstart target p =
     (case closest_dnd_row p target of
        None \<Rightarrow> p
      | Some row \<Rightarrow> p\<lparr>attrs := (attrs p)(row := (attrs p row)\<lparr>is_dragging := True\<rparr>),
                     dragEl := Some row\<rparr>)"

definition dragend :: "page \<Rightarrow> page" where
  "dragend p =
     (let p1 = (case dragEl p of
                  None \<Rightarrow> p
                | Some d \<Rightarrow> p\<lparr>attrs := (attrs p)(d := (attrs p d)\<lparr>is_dragging := False\<rparr>)\<rparr>);
          p2 = p1\<lparr>dragEl := None\<rparr>
      in updatePositions p2)"

definition dragover :: "(node \<Rightarrow> box) \<Rightarrow> jsnum \<Rightarrow> page \<Rightarrow> dom_error + page" where
  "dragover rect clientY p =
     (let after = getDragAfterElement rect p clientY
      in case querySelector_dragging p of
           None \<Rightarrow> Inr p
         | Some dragging \<Rightarrow>
             (case after of
                None \<Rightarrow> Inr (p\<lparr>children := appendChild dragging (children p)\<rparr>)
              | Some a \<Rightarrow>
                  (case insertBefore dragging a (children p) of
                     Inl e \<Rightarrow> Inl e
                   | Inr cs \<Rightarrow> Inr (p\<lparr>children := cs\<rparr>))))"

datatype event = DragStart node | DragOver "node \<Rightarrow> box" jsnum | DragEnd

fun handle :: "event \<Rightarrow> page \<Rightarrow> dom_error + page" where
  "handle (DragStart target) p = Inr (dragstart target p)"
| "handle (DragOver rect clientY) p = dragover rect clientY p"
| "handle DragEnd p = Inr (dragend p)"

fun run :: "event list \<Rightarrow> page \<Rightarrow> dom_error + page" where
  "run [] p = Inr p"
| "run (e # es) p = (case handle e p of Inl err \<Rightarrow> Inl err | Inr p' \<Rightarrow> run es p')"

definition edit_js :: "page \<Rightarrow> page" where
  \<comment> \<open>running the script on the page the server rendered: \<^verbatim>\<open>dragEl\<close> starts as \<^verbatim>\<open>null\<close>,
      the handlers are registered, and the last statement is \<^verbatim>\<open>updatePositions()\<close>\<close>
  "edit_js p = updatePositions (p\<lparr>dragEl := None\<rparr>)"


section \<open>The clamp of record.js\<close>

text \<open>
  The handler reads \<^verbatim>\<open>Number(el.value || 0)\<close>. A string is a list of code units; the
  code units of this model are the 256 values of \<^typ>\<open>char\<close>, so text beyond Latin-1 is
  outside it. \<open>Number\<close> of a string is the conversion of ECMAScript (StringToNumber):
  white space is trimmed, the empty string is \<open>0\<close>, a decimal literal with an optional
  sign, fraction and exponent, \<^verbatim>\<open>Infinity\<close>, or an unsigned binary, octal or hexadecimal
  integer literal is its value rounded to the nearest binary64 number (ties to even), and
  anything else is \<open>NaN\<close>.
\<close>

definition is_white_space :: "char \<Rightarrow> bool" where
  \<comment> \<open>TAB, LF, VT, FF, CR, SP and NBSP\<close>
  "is_white_space c = ((of_char c :: nat) \<in> {9, 10, 11, 12, 13, 32, 160})"

definition trim :: "string \<Rightarrow> string" where
  "trim s = rev (dropWhile is_white_space (rev (dropWhile is_white_space s)))"

definition hex_digit_val :: "char \<Rightarrow> int option" where
  "hex_digit_val c =
     (let k = (of_char c :: int)
      in if 48 \<le> k \<and> k \<le> 57 then Some (k - 48)
         else if 65 \<le> k \<and> k \<le> 70 then Some (k - 55)
         else if 97 \<le> k \<and> k \<le> 102 then Some (k - 87)
         else None)"

definition radix_literal :: "int \<Rightarrow> string \<Rightarrow> jsnum" where
  \<comment> \<open>the digits after \<^verbatim>\<open>0x\<close>, \<^verbatim>\<open>0o\<close> or \<^verbatim>\<open>0b\<close>: at least one, each below the radix\<close>
  "radix_literal b ds =
     (if ds \<noteq> [] \<and> (\<forall>c \<in> set ds. case hex_digit_val c of None \<Rightarrow> False | Some v \<Rightarrow> v < b)
      then to_double (foldl (\<lambda>a c. b * a + the (hex_digit_val c)) 0 ds) 1
      else NaN)"

definition ExponentPart :: "string \<Rightarrow> int option" where
  \<comment> \<open>what follows the digits: nothing (exponent \<open>0\<close>), or \<^verbatim>\<open>e\<close> or \<^verbatim>\<open>E\<close>, an optional
      sign and at least one digit; \<open>None\<close> when it is neither\<close>
  "ExponentPart s =
     (case s of
        [] \<Rightarrow> Some 0
      | c # t \<Rightarrow>
          if c = CHR ''e'' \<or> c = CHR ''E'' then
            (let (neg, ds) = (case t of
                                [] \<Rightarrow> (False, [])
                              | d # u \<Rightarrow> if d = CHR ''-'' then (True, u)
                                         else if d = CHR ''+'' then (False, u)
                                         else (False, t))
             in if ds \<noteq> [] \<and> list_all is_digit ds
                then Some (if neg then - int (digits_value ds) else int (digits_value ds))
                else None)
          else None)"

definition StrUnsignedDecimalLiteral :: "string \<Rightarrow> jsnum" where
  "StrUnsignedDecimalLiteral s =
     (if s = ''Infinity'' then PosInfinity
      else let ip = takeWhile is_digit s;
               r1 = dropWhile is_digit s;
               (fp, r2) = (case r1 of
                             [] \<Rightarrow> ([], r1)
                           | c # t \<Rightarrow> if c = CHR ''.'' then (takeWhile is_digit t, dropWhile is_digit t)
                                      else ([], r1))
           in if ip = [] \<and> fp = [] then NaN
              else case ExponentPart r2 of
                     None \<Rightarrow> NaN
                   | Some e \<Rightarrow>
                       (let k = e - int (length fp); m = int (digits_value (ip @ fp))
                        in if 0 \<le> k then to_double (m * 10 ^ nat k) 1
                           else to_double m (10 ^ nat (- k))))"

definition StrNumericLiteral :: "string \<Rightarrow> jsnum" where
  "StrNumericLiteral s =
     (case s of
        [] \<Rightarrow> NaN
      | c # t \<Rightarrow>
          if c = CHR ''-'' then js_negate (StrUnsignedDecimalLiteral t)
          else if c = CHR ''+'' then StrUnsignedDecimalLiteral t
          else if c = CHR ''0'' \<and> t \<noteq> [] \<and> hd t \<in> {CHR ''x'', CHR ''X''} then radix_literal 16 (tl t)
          else if c = CHR ''0'' \<and> t \<noteq> [] \<and> hd t \<in> {CHR ''o'', CHR ''O''} then radix_literal 8 (tl t)
          else if c = CHR ''0'' \<and> t \<noteq> [] \<and> hd t \<in> {CHR ''b'', CHR ''B''} then radix_literal 2 (tl t)
          else StrUnsignedDecimalLiteral s)"

definition StringToNumber :: "string \<Rightarrow> jsnum" where
  "StringToNumber s = (let t = trim s in if t = [] then Finite 0 else StrNumericLiteral t)"

record element =
  el_name :: "string option"  \<comment> \<open>\<^verbatim>\<open>el.name\<close>; \<open>None\<close> when the element has no such property\<close>
  el_value :: string  \<comment> \<open>\<^verbatim>\<open>el.value\<close>\<close>

definition is_sets_field :: "element \<Rightarrow> bool" where
  \<comment> \<open>\<^verbatim>\<open>el.name && el.name.endsWith("[sets]")\<close>: the empty name is falsy\<close>
  "is_sets_field el =
     (case el_name el of None \<Rightarrow> False | Some n \<Rightarrow> n \<noteq> [] \<and> suffix ''[sets]'' n)"

definition Number_of_value :: "string \<Rightarrow> jsnum" where
  \<comment> \<open>\<^verbatim>\<open>Number(el.value || 0)\<close>: the empty string is falsy, so the number \<open>0\<close> is converted\<close>
  "Number_of_value v = (if v = [] then Finite 0 else StringToNumber v)"

definition input_handler :: "element \<Rightarrow> element" where
  "input_handler el =
     (if is_sets_field el then
        (let v = Number_of_value (el_value el);
             el1 = (if js_less v (Finite 0) then el\<lparr>el_value := ToString 0\<rparr> else el);
             el2 = (if js_less (Finite 99) v then el1\<lparr>el_value := ToString 99\<rparr> else el1)
         in el2)
      else el)"


section \<open>The handlers that send requests\<close>

text \<open>
  An asynchronous handler is modelled by what it does, in order: the dialogs it opens,
  the requests it sends, how each request settles, and how the handler's own promise
  ends. The answer of the user to a dialog and the outcome of a request are inputs of the
  model; they are looked at only when the handler reaches the dialog or the request.
\<close>

datatype message =
    RemoveUrlMissing  \<comment> \<open>\<^verbatim>\<open>remove URL fehlt (data-remove-url).\<close>\<close>
  | ConfirmRemove  \<comment> \<open>the question whether to remove the exercise from the plan\<close>
  | RemoveFailed  \<comment> \<open>\<^verbatim>\<open>Entfernen fehlgeschlagen.\<close>\<close>
  | SaveFailed  \<comment> \<open>the changes could not be saved\<close>
  | AddFailed  \<comment> \<open>the exercise could not be added\<close>
  | NetworkError  \<comment> \<open>\<^verbatim>\<open>Netzwerkfehler. Bitte erneut versuchen.\<close>\<close>
  | SelectPlan  \<comment> \<open>\<^verbatim>\<open>Bitte einen Plan in der Liste ...\<close>\<close>
  | ConfirmDelete  \<comment> \<open>the question whether to delete the plan\<close>
  | DeleteFailed  \<comment> \<open>the deletion failed\<close>
  | DeleteNetworkError  \<comment> \<open>a network error during the deletion\<close>

datatype request =
    RemoveRequest string string
      \<comment> \<open>POST to the remove URL with the form field \<^verbatim>\<open>exercise_id\<close>\<close>
  | SaveRequest  \<comment> \<open>POST of the edit form to its action\<close>
  | AddRequest  \<comment> \<open>POST of the add-exercise form to its action\<close>
  | DeleteRequest string  \<comment> \<open>POST to the given URL\<close>

datatype fetch_outcome =
    Rejected  \<comment> \<open>the promise of \<^verbatim>\<open>fetch\<close> rejects: the request could not be sent or completed\<close>
  | Response nat  \<comment> \<open>a response with this status\<close>

definition ok :: "nat \<Rightarrow> bool" where
  \<comment> \<open>\<^verbatim>\<open>res.ok\<close>: the status is in the range 200 to 299\<close>
  "ok status = (200 \<le> status \<and> status \<le> 299)"

datatype action =
    PreventDefault
  | Alert message
  | Confirm message bool  \<comment> \<open>the dialog and the user's answer\<close>
  | Fetch request
  | Settled request fetch_outcome  \<comment> \<open>the awaited request has settled\<close>
  | Reload  \<comment> \<open>\<^verbatim>\<open>location.reload()\<close>\<close>
  | SetDisabled bool  \<comment> \<open>\<^verbatim>\<open>addBtn.disabled = ...\<close>\<close>

datatype completion =
    Fulfilled  \<comment> \<open>the handler returned\<close>
  | Unhandled  \<comment> \<open>an exception left the handler: its promise rejects and nobody handles it\<close>

definition truthy :: "string option \<Rightarrow> bool" where
  \<comment> \<open>\<^verbatim>\<open>undefined\<close> and the empty string are falsy\<close>
  "truthy s = (case s of None \<Rightarrow> False | Some v \<Rightarrow> v \<noteq> [])"

definition click_remove ::
  "string option \<Rightarrow> string option \<Rightarrow> bool \<Rightarrow> fetch_outcome \<Rightarrow> page \<Rightarrow> page \<times> action list \<times> completion" where
  \<comment> \<open>the click handler of edit.js. \<open>removeUrl\<close> is \<^verbatim>\<open>table.dataset.removeUrl\<close>; \<open>btn\<close> is the
      \<^verbatim>\<open>data-remove\<close> attribute of \<^verbatim>\<open>e.target.closest("[data-remove]")\<close>, \<open>None\<close> when
      there is no such element\<close>
  "click_remove removeUrl btn answer res p =
     (case btn of
        None \<Rightarrow> (p, [], Fulfilled)
      | Some exId \<Rightarrow>
          if \<not> truthy removeUrl then (p, [Alert RemoveUrlMissing], Fulfilled)
          else if \<not> answer then (p, [Confirm ConfirmRemove False], Fulfilled)
          else
            (let req = RemoveRequest (the removeUrl) exId;
                 sent = [Confirm ConfirmRemove True, Fetch req, Settled req res]
             in case res of
                  Rejected \<Rightarrow> (p, sent, Unhandled)
                | Response status \<Rightarrow>
                    if ok status then (p, sent @ [Reload], Fulfilled)
                    else (p, sent @ [Alert RemoveFailed], Fulfilled)))"

definition submit_add ::
  "bool \<Rightarrow> fetch_outcome \<Rightarrow> fetch_outcome \<Rightarrow> page \<Rightarrow> page \<times> action list \<times> completion" where
  \<comment> \<open>the submit handler of the add-exercise form. \<open>addBtn\<close> tells whether the form has a
      \<^verbatim>\<open>button[type="submit"]\<close>; \<open>saveRes\<close> and \<open>addRes\<close> are the outcomes of the two requests\<close>
  "submit_add addBtn saveRes addRes p =
     (let p1 = updatePositions p;
          disable = (if addBtn then [SetDisabled True] else []);
          try_block =
            (case saveRes of
               Rejected \<Rightarrow> [Fetch SaveRequest, Settled SaveRequest saveRes, Alert NetworkError]
             | Response s1 \<Rightarrow>
                 if \<not> ok s1 then [Fetch SaveRequest, Settled SaveRequest saveRes, Alert SaveFailed]
                 else [Fetch SaveRequest, Settled SaveRequest saveRes] @
                   (case addRes of
                      Rejected \<Rightarrow> [Fetch AddRequest, Settled AddRequest addRes, Alert NetworkError]
                    | Response s2 \<Rightarrow>
                        if \<not> ok s2 then [Fetch AddRequest, Settled AddRequest addRes, Alert AddFailed]
                        else [Fetch AddRequest, Settled AddRequest addRes, Reload]));
          finally_block = (if addBtn then [SetDisabled False] else [])
      in (p1, PreventDefault # disable @ try_block @ finally_block, Fulfilled))"

definition click_delete ::
  "string option \<Rightarrow> bool \<Rightarrow> fetch_outcome \<Rightarrow> action list \<times> completion" where
  \<comment> \<open>the click handler of \<^verbatim>\<open>btnDelete\<close> in index.js. \<open>sel\<close> is \<^verbatim>\<open>list.value\<close>, \<open>None\<close> when
      there is no list\<close>
  "click_delete sel answer res =
     (if \<not> truthy sel then ([Alert SelectPlan], Fulfilled)
      else if \<not> answer then ([Confirm ConfirmDelete False], Fulfilled)
      else
        (let req = DeleteRequest (''/plans/'' @ the sel @ ''/delete'');
             sent = [Confirm ConfirmDelete True, Fetch req, Settled req res]
         in case res of
              Rejected \<Rightarrow> (sent @ [Alert DeleteNetworkError], Fulfilled)
            | Response status \<Rightarrow>
                if ok status then (sent @ [Reload], Fulfilled)
                else (sent @ [Alert DeleteFailed], Fulfilled)))"

section \<open>Vocabulary of the properties\<close>

definition pointer_offset :: "(node \<Rightarrow> box) \<Rightarrow> jsnum \<Rightarrow> node \<Rightarrow> jsnum" where
  \<comment> \<open>the offset that the callback of \<^verbatim>\<open>reduce\<close> computes for a row\<close>
  "pointer_offset rect y n = js_sub (js_sub y (box_top (rect n))) (js_half (box_height (rect n)))"

definition below_pointer :: "(node \<Rightarrow> box) \<Rightarrow> jsnum \<Rightarrow> node \<Rightarrow> bool" where
  \<comment> \<open>the computed offset of the row is a negative number other than \<^verbatim>\<open>-Infinity\<close>\<close>
  "below_pointer rect y n =
     (js_less NegInfinity (pointer_offset rect y n) \<and> js_less (pointer_offset rect y n) (Finite 0))"

definition top_to_bottom :: "(node \<Rightarrow> box) \<Rightarrow> jsnum \<Rightarrow> node list \<Rightarrow> bool" where
  \<comment> \<open>the rows lie top to bottom as the computed offsets tell it: from a row to any later
      one the offset does not grow\<close>
  "top_to_bottom rect y ns =
     sorted_wrt (\<lambda>a b. \<not> js_less (pointer_offset rect y a) (pointer_offset rect y b)) ns"

definition spec_midpoint_below :: "(node \<Rightarrow> box) \<Rightarrow> jsnum \<Rightarrow> node \<Rightarrow> bool" where
  \<comment> \<open>the words of the specification: the vertical midpoint of the row lies strictly below
      \<open>y\<close> (larger coordinates are further down), in exact arithmetic\<close>
  "spec_midpoint_below rect y n =
     (case (y, box_top (rect n), box_height (rect n)) of
        (Finite y', Finite t, Finite h) \<Rightarrow> y' < t + h / 2
      | _ \<Rightarrow> False)"

definition move_before :: "node \<Rightarrow> node option \<Rightarrow> node list \<Rightarrow> node list" where
  \<comment> \<open>the children with the node taken out and put back immediately before the target,
      or at the end when there is no target\<close>
  "move_before d target cs =
     (let rest = remove1 d cs
      in case target of
           None \<Rightarrow> rest @ [d]
         | Some a \<Rightarrow> takeWhile (\<lambda>n. n \<noteq> a) rest @ d # dropWhile (\<lambda>n. n \<noteq> a) rest)"

definition positions :: "page \<Rightarrow> string option list" where
  \<comment> \<open>the position values of the rows, top to bottom\<close>
  "positions p = map (\<lambda>n. position_value (attrs p n)) (querySelectorAll_rows p)"

definition abc_page :: page where
  \<comment> \<open>the rows A, B, C (nodes 0, 1, 2) with the positions 1, 2, 3\<close>
  "abc_page =
     \<lparr>children = [0, 1, 2],
      attrs = (\<lambda>n. \<lparr>dnd_row = True, is_dragging = False, position_value = Some (ToString (n + 1))\<rparr>),
      dragEl = None\<rparr>"

definition abc_rect :: "node \<Rightarrow> box" where
  \<comment> \<open>a layout in which the row \<open>n\<close> spans the 40 pixels from \<open>100 + 40 n\<close> on\<close>
  "abc_rect n = \<lparr>box_top = Finite (100 + 40 * of_nat n), box_height = Finite 40\<rparr>"

definition two_rows :: page where
  \<comment> \<open>the rows 0 and 1, the row 0 being dragged\<close>
  "two_rows =
     \<lparr>children = [0, 1],
      attrs = (\<lambda>n. \<lparr>dnd_row = True, is_dragging = (n = 0), position_value = Some (ToString (n + 1))\<rparr>),
      dragEl = Some 0\<rparr>"

definition near_rect :: "node \<Rightarrow> box" where
  \<comment> \<open>a layout in which a row is 1000 pixels high and starts at \<open>2\<^sup>-\<^sup>5\<^sup>0\<close>, so that its
      midpoint is that much below 500\<close>
  "near_rect n = \<lparr>box_top = Finite (1 / 2 ^ 50), box_height = Finite 1000\<rparr>"

section \<open>Properties of \<open>updatePositions\<close>\<close>

lemma set_position_children [simp]: "children (set_position p x) = children p"
  by (cases x) (simp add: set_position_def split: option.splits)

lemma set_position_dragEl [simp]: "dragEl (set_position p x) = dragEl p"
  by (cases x) (simp add: set_position_def split: option.splits)

lemma set_position_dnd_row [simp]: "dnd_row (attrs (set_position p x) n) = dnd_row (attrs p n)"
  by (cases x) (simp add: set_position_def split: option.splits)

lemma set_position_is_dragging [simp]:
  "is_dragging (attrs (set_position p x) n) = is_dragging (attrs p n)"
  by (cases x) (simp add: set_position_def split: option.splits)

lemma set_position_other: "n \<noteq> fst x \<Longrightarrow> attrs (set_position p x) n = attrs p n"
  by (cases x) (simp add: set_position_def split: option.splits)

lemma set_position_None [simp]:
  "(position_value (attrs (set_position p x) n) = None) = (position_value (attrs p n) = None)"
  by (cases x) (auto simp add: set_position_def split: option.splits)

lemma set_position_at:
  "position_value (attrs p tr) \<noteq> None \<Longrightarrow>
   position_value (attrs (set_position p (tr, i)) tr) = Some (ToString (i + 1))"
  by (auto simp add: set_position_def split: option.splits)

lemma foldl_set_position_frame:
  "children (foldl set_position p xs) = children p \<and>
   dragEl (foldl set_position p xs) = dragEl p \<and>
   dnd_row (attrs (foldl set_position p xs) n) = dnd_row (attrs p n) \<and>
   is_dragging (attrs (foldl set_position p xs) n) = is_dragging (attrs p n) \<and>
   ((position_value (attrs (foldl set_position p xs) n) = None) = (position_value (attrs p n) = None))"
  by (induction xs arbitrary: p) simp_all

lemma foldl_set_position_other:
  "n \<notin> fst ` set xs \<Longrightarrow> attrs (foldl set_position p xs) n = attrs p n"
  by (induction xs arbitrary: p) (auto simp: set_position_other)

lemma foldl_set_position_at:
  "distinct trs \<Longrightarrow> i < length trs \<Longrightarrow> position_value (attrs p (trs ! i)) \<noteq> None \<Longrightarrow>
   position_value (attrs (foldl set_position p (zip trs [k..<k + length trs])) (trs ! i)) =
     Some (ToString (k + i + 1))"
proof (induction trs arbitrary: p k i)
  case Nil
  then show ?case by simp
next
  case (Cons t ts)
  have "[k..<k + length (t # ts)] = k # [Suc k..<k + length (t # ts)]"
    by (rule upt_conv_Cons) simp
  then have upt: "[k..<k + length (t # ts)] = k # [Suc k..<Suc k + length ts]"
    by simp
  let ?p1 = "set_position p (t, k)"
  have unfold: "foldl set_position p (zip (t # ts) [k..<k + length (t # ts)]) =
      foldl set_position ?p1 (zip ts [Suc k..<Suc k + length ts])"
    by (simp only: upt zip_Cons_Cons foldl_Cons)
  show ?case
  proof (cases i)
    case 0
    have "t \<notin> fst ` set (zip ts [Suc k..<Suc k + length ts])"
      using Cons.prems(1) by (auto dest: set_zip_leftD)
    then have "attrs (foldl set_position ?p1 (zip ts [Suc k..<Suc k + length ts])) t = attrs ?p1 t"
      by (rule foldl_set_position_other)
    moreover have "position_value (attrs ?p1 t) = Some (ToString (k + 1))"
      using Cons.prems(3) 0 by (simp add: set_position_at)
    ultimately show ?thesis using 0 by (simp only: unfold nth_Cons_0) simp
  next
    case (Suc j)
    have j: "j < length ts" using Cons.prems(2) Suc by simp
    have ne: "ts ! j \<noteq> t" using Cons.prems(1) j by auto
    have "position_value (attrs ?p1 (ts ! j)) \<noteq> None"
      using Cons.prems(3) Suc by simp
    with Cons.IH [of j ?p1 "Suc k"] Cons.prems(1) j
    have "position_value (attrs (foldl set_position ?p1 (zip ts [Suc k..<Suc k + length ts])) (ts ! j)) =
            Some (ToString (Suc k + j + 1))"
      by simp
    then show ?thesis using Suc by (simp only: unfold nth_Cons_Suc) simp
  qed
qed

lemma updatePositions_children [simp]: "children (updatePositions p) = children p"
  by (simp add: updatePositions_def Let_def foldl_set_position_frame)

lemma updatePositions_dragEl [simp]: "dragEl (updatePositions p) = dragEl p"
  by (simp add: updatePositions_def Let_def foldl_set_position_frame)

lemma updatePositions_dnd_row [simp]:
  "dnd_row (attrs (updatePositions p) n) = dnd_row (attrs p n)"
  by (simp add: updatePositions_def Let_def foldl_set_position_frame)

lemma updatePositions_is_dragging [simp]:
  "is_dragging (attrs (updatePositions p) n) = is_dragging (attrs p n)"
  by (simp add: updatePositions_def Let_def foldl_set_position_frame)

lemma updatePositions_None [simp]:
  "(position_value (attrs (updatePositions p) n) = None) = (position_value (attrs p n) = None)"
  by (simp add: updatePositions_def Let_def foldl_set_position_frame)

lemma updatePositions_rows [simp]:
  "querySelectorAll_rows (updatePositions p) = querySelectorAll_rows p"
  by (simp add: querySelectorAll_rows_def)

lemma updatePositions_other:
  "n \<notin> set (querySelectorAll_rows p) \<Longrightarrow> attrs (updatePositions p) n = attrs p n"
  by (auto simp add: updatePositions_def Let_def intro!: foldl_set_position_other dest: set_zip_leftD)

lemma updatePositions_at:
  assumes "distinct (children p)" and "i < length (querySelectorAll_rows p)"
    and "position_value (attrs p (querySelectorAll_rows p ! i)) \<noteq> None"
  shows "position_value (attrs (updatePositions p) (querySelectorAll_rows p ! i)) = Some (ToString (i + 1))"
proof -
  have "distinct (querySelectorAll_rows p)"
    using assms(1) by (simp add: querySelectorAll_rows_def)
  from foldl_set_position_at [OF this assms(2) assms(3), of 0]
  show ?thesis by (simp add: updatePositions_def Let_def)
qed

section \<open>Decimal numerals\<close>

lemma digit_val_digit_char: "d < 10 \<Longrightarrow> digit_val (digit_char d) = d"
proof -
  assume "d < 10"
  then have "d \<in> {0, 1, 2, 3, 4, 5, 6, 7, 8, 9}" by auto
  then show ?thesis
    by (auto simp: digit_val_def digit_char_def)
qed

lemma digits_value_snoc: "digits_value (ds @ [c]) = 10 * digits_value ds + digit_val c"
  by (simp add: digits_value_def)

lemma digits_value_ToString: "digits_value (ToString n) = n"
proof (induction n rule: ToString.induct)
  case (1 n)
  show ?case
  proof (cases "n < 10")
    case True
    then show ?thesis
      by (subst ToString.simps) (simp add: digits_value_def digit_val_digit_char)
  next
    case False
    with 1 have "digits_value (ToString (n div 10)) = n div 10" by simp
    with False show ?thesis
      by (subst ToString.simps) (simp add: digits_value_snoc digit_val_digit_char)
  qed
qed

lemma ToString_inject: "ToString m = ToString n \<Longrightarrow> m = n"
  by (metis digits_value_ToString)

section \<open>Properties of the drag handlers\<close>

lemma reducer_element:
  "element (foldl (reducer rect y) c xs) = Some a \<Longrightarrow> a \<in> set xs \<or> element c = Some a"
proof (induction xs arbitrary: c)
  case Nil
  then show ?case by simp
next
  case (Cons x xs)
  from Cons.prems have "element (foldl (reducer rect y) (reducer rect y c x) xs) = Some a"
    by simp
  from Cons.IH [OF this] show ?case
    by (auto simp: reducer_def Let_def split: if_splits)
qed

lemma getDragAfterElement_candidate:
  "getDragAfterElement rect p y = Some a \<Longrightarrow> a \<in> set (querySelectorAll_not_dragging p)"
  by (auto simp: getDragAfterElement_def Let_def dest: reducer_element)

lemma querySelector_dragging_Some:
  "querySelector_dragging p = Some d \<Longrightarrow>
   d \<in> set (children p) \<and> dnd_row (attrs p d) \<and> is_dragging (attrs p d)"
  by (auto simp: querySelector_dragging_def find_Some_iff)

lemma dragover_eq:
  "dragover rect y p =
     (case querySelector_dragging p of
        None \<Rightarrow> Inr p
      | Some d \<Rightarrow> Inr (p\<lparr>children := move_before d (getDragAfterElement rect p y) (children p)\<rparr>))"
proof (cases "querySelector_dragging p")
  case None
  then show ?thesis by (simp add: dragover_def Let_def)
next
  case (Some d)
  note d = querySelector_dragging_Some [OF Some]
  show ?thesis
  proof (cases "getDragAfterElement rect p y")
    case None
    with Some show ?thesis
      by (simp add: dragover_def Let_def move_before_def appendChild_def)
  next
    case (Some a)
    from getDragAfterElement_candidate [OF this]
    have "a \<in> set (children p)" and "\<not> is_dragging (attrs p a)"
      by (auto simp: querySelectorAll_not_dragging_def)
    with d have "insertBefore d a (children p) = Inr (move_before d (Some a) (children p))"
      by (auto simp: insertBefore_def move_before_def Let_def)
    with Some \<open>querySelector_dragging p = Some d\<close> show ?thesis
      by (simp add: dragover_def Let_def)
  qed
qed

lemma mset_move_before:
  "d \<in> set cs \<Longrightarrow> mset (move_before d t cs) = mset cs"
proof -
  assume d: "d \<in> set cs"
  have "mset (takeWhile P xs @ d # dropWhile P xs) = add_mset d (mset xs)" for P and xs :: "node list"
    by (metis mset.simps(2) mset_append takeWhile_dropWhile_id union_mset_add_mset_right)
  with d show ?thesis
    by (cases t) (simp_all add: move_before_def Let_def)
qed

lemma filter_move_before:
  "filter (\<lambda>n. n \<noteq> d) (move_before d t cs) = filter (\<lambda>n. n \<noteq> d) cs"
proof -
  have r: "filter (\<lambda>n. n \<noteq> d) (remove1 d xs) = filter (\<lambda>n. n \<noteq> d) xs" for xs
    by (induction xs) auto
  have "filter Q (takeWhile P xs @ d # dropWhile P xs) = filter Q xs" if "\<not> Q d"
    for P Q and xs :: "node list"
    using that by (metis filter.simps(2) filter_append takeWhile_dropWhile_id)
  then show ?thesis
    by (cases t) (simp_all add: move_before_def Let_def r)
qed

lemma dragover_Inr:
  "\<exists>p'. dragover rect y p = Inr p' \<and> attrs p' = attrs p \<and> dragEl p' = dragEl p \<and>
        mset (children p') = mset (children p)"
  by (auto simp: dragover_eq mset_move_before split: option.splits
      dest: querySelector_dragging_Some)

lemma dragstart_frame:
  "children (dragstart t p) = children p \<and>
   dnd_row (attrs (dragstart t p) n) = dnd_row (attrs p n) \<and>
   position_value (attrs (dragstart t p) n) = position_value (attrs p n)"
  by (simp add: dragstart_def closest_dnd_row_def)

lemma dragend_frame:
  "children (dragend p) = children p \<and>
   dnd_row (attrs (dragend p) n) = dnd_row (attrs p n) \<and>
   ((position_value (attrs (dragend p) n) = None) = (position_value (attrs p n) = None))"
  by (simp add: dragend_def Let_def split: option.splits)

lemma handle_frame:
  "\<exists>p'. handle e p = Inr p' \<and> mset (children p') = mset (children p) \<and>
     (\<forall>n. dnd_row (attrs p' n) = dnd_row (attrs p n)) \<and>
     (\<forall>n. (position_value (attrs p' n) = None) = (position_value (attrs p n) = None))"
proof (cases e)
  case (DragStart t)
  then show ?thesis by (simp add: dragstart_frame)
next
  case (DragOver rect y)
  with dragover_Inr [of rect y p] show ?thesis by auto
next
  case DragEnd
  then show ?thesis by (simp add: dragend_frame)
qed

lemma run_frame:
  "\<exists>p'. run es p = Inr p' \<and> mset (children p') = mset (children p) \<and>
     (\<forall>n. dnd_row (attrs p' n) = dnd_row (attrs p n)) \<and>
     (\<forall>n. (position_value (attrs p' n) = None) = (position_value (attrs p n) = None))"
proof (induction es arbitrary: p)
  case Nil
  then show ?case by simp
next
  case (Cons e es)
  from handle_frame [of e p] obtain q where q: "handle e p = Inr q"
    "mset (children q) = mset (children p)"
    "\<forall>n. dnd_row (attrs q n) = dnd_row (attrs p n)"
    "\<forall>n. (position_value (attrs q n) = None) = (position_value (attrs p n) = None)"
    by blast
  from Cons.IH [of q] obtain p' where p': "run es q = Inr p'"
    "mset (children p') = mset (children q)"
    "\<forall>n. dnd_row (attrs p' n) = dnd_row (attrs q n)"
    "\<forall>n. (position_value (attrs p' n) = None) = (position_value (attrs q n) = None)"
    by blast
  from q p' show ?case by simp
qed

lemma run_append:
  "run (xs @ ys) p = (case run xs p of Inl e \<Rightarrow> Inl e | Inr q \<Rightarrow> run ys q)"
  by (induction xs arbitrary: p) (auto split: sum.splits)

lemma dragend_at:
  assumes "distinct (children p)" and "i < length (querySelectorAll_rows p)"
    and "position_value (attrs p (querySelectorAll_rows p ! i)) \<noteq> None"
  shows "position_value (attrs (dragend p) (querySelectorAll_rows p ! i)) = Some (ToString (i + 1))"
proof -
  define q where "q = (case dragEl p of None \<Rightarrow> p
      | Some d \<Rightarrow> p\<lparr>attrs := (attrs p)(d := (attrs p d)\<lparr>is_dragging := False\<rparr>)\<rparr>)\<lparr>dragEl := None\<rparr>"
  have de: "dragend p = updatePositions q"
    by (simp add: dragend_def q_def Let_def)
  have c: "children q = children p" by (simp add: q_def split: option.splits)
  have r: "querySelectorAll_rows q = querySelectorAll_rows p"
    by (auto simp: q_def querySelectorAll_rows_def split: option.splits intro!: filter_cong)
  have v: "position_value (attrs q n) = position_value (attrs p n)" for n
    by (simp add: q_def split: option.splits)
  from updatePositions_at [of q i] assms c r v show ?thesis
    by (simp add: de)
qed

lemma dragend_rows [simp]: "querySelectorAll_rows (dragend p) = querySelectorAll_rows p"
  by (simp add: querySelectorAll_rows_def dragend_frame)

lemma rows_cong:
  "children p' = children p \<Longrightarrow> (\<forall>n. dnd_row (attrs p' n) = dnd_row (attrs p n)) \<Longrightarrow>
   querySelectorAll_rows p' = querySelectorAll_rows p"
  by (simp add: querySelectorAll_rows_def)

lemma rows_mset:
  "mset (children p') = mset (children p) \<Longrightarrow> (\<forall>n. dnd_row (attrs p' n) = dnd_row (attrs p n)) \<Longrightarrow>
   mset (querySelectorAll_rows p') = mset (querySelectorAll_rows p)"
  by (simp add: querySelectorAll_rows_def)

lemma reducer_keep:
  "\<forall>n \<in> set xs. \<not> (js_less (pointer_offset rect y n) (Finite 0) \<and>
       js_less (offset c) (pointer_offset rect y n)) \<Longrightarrow>
   foldl (reducer rect y) c xs = c"
proof (induction xs)
  case Nil
  then show ?case by simp
next
  case (Cons x xs)
  then have "reducer rect y c x = c"
    by (auto simp: reducer_def Let_def pointer_offset_def)
  with Cons show ?case by simp
qed

lemma reducer_sorted:
  "top_to_bottom rect y xs \<Longrightarrow>
   element (foldl (reducer rect y) \<lparr>offset = NegInfinity, element = None\<rparr> xs) =
     find (below_pointer rect y) xs"
proof (induction xs)
  case Nil
  then show ?case by simp
next
  case (Cons x xs)
  from Cons.prems have tail: "top_to_bottom rect y xs"
    and later: "\<forall>n \<in> set xs. \<not> js_less (pointer_offset rect y x) (pointer_offset rect y n)"
    by (simp_all add: top_to_bottom_def)
  show ?case
  proof (cases "below_pointer rect y x")
    case True
    let ?c = "\<lparr>offset = pointer_offset rect y x, element = Some x\<rparr>"
    have step: "reducer rect y \<lparr>offset = NegInfinity, element = None\<rparr> x = ?c"
      using True by (simp add: reducer_def Let_def pointer_offset_def below_pointer_def)
    have "\<forall>n \<in> set xs. \<not> (js_less (pointer_offset rect y n) (Finite 0) \<and>
        js_less (offset ?c) (pointer_offset rect y n))"
      using later by simp
    then have "foldl (reducer rect y) ?c xs = ?c" by (rule reducer_keep)
    with step True show ?thesis by simp
  next
    case False
    then have "reducer rect y \<lparr>offset = NegInfinity, element = None\<rparr> x =
        \<lparr>offset = NegInfinity, element = None\<rparr>"
      by (auto simp: reducer_def Let_def pointer_offset_def below_pointer_def)
    with Cons.IH [OF tail] False show ?thesis by simp
  qed
qed

lemma getDragAfterElement_sorted:
  "top_to_bottom rect y (querySelectorAll_not_dragging p) \<Longrightarrow>
   getDragAfterElement rect p y = find (below_pointer rect y) (querySelectorAll_not_dragging p)"
  by (simp add: getDragAfterElement_def Let_def reducer_sorted)

lemma below_pointer_exact:
  assumes "y = Finite y'" and "box_top (rect n) = Finite t" and "box_height (rect n) = Finite h"
    and "pointer_offset rect y n = Finite (y' - t - h / 2)"
  shows "below_pointer rect y n = spec_midpoint_below rect y n"
  using assms by (auto simp: below_pointer_def spec_midpoint_below_def)

lemma ToString_digit: "n < 10 \<Longrightarrow> ToString n = [digit_char n]"
  by (subst ToString.simps) simp

lemmas drag_eval = abc_page_def abc_rect_def dragstart_def closest_dnd_row_def
      querySelectorAll_not_dragging_def querySelector_dragging_def
      insertBefore_def appendChild_def dragend_def updatePositions_def
      querySelectorAll_rows_def set_position_def Let_def ToString_digit digit_char_def
      upt_rec move_before_def positions_def

lemma abc_dragging: "querySelector_dragging (dragstart d abc_page) = Some d" if "d < 3" for d
proof -
  from that have "d \<in> {0, 1, 2}" by auto
  then show ?thesis by (auto simp: drag_eval)
qed

lemma abc_after_110: "getDragAfterElement abc_rect (dragstart 2 abc_page) (Finite 110) = Some 0"
  by code_simp

lemma abc_after_190: "getDragAfterElement abc_rect (dragstart (Suc 0) abc_page) (Finite 190) = Some 2"
  by code_simp

lemma abc_scenario:
  "run [DragStart 2, DragOver abc_rect (Finite 110), DragEnd] abc_page =
     Inr \<lparr>children = [2, 0, 1],
          attrs = (\<lambda>n. \<lparr>dnd_row = True, is_dragging = False,
                       position_value = Some (if n = 2 then ''1'' else if n = 0 then ''2''
                                              else if n = 1 then ''3'' else ToString (n + 1))\<rparr>),
          dragEl = None\<rparr>"
  by (simp add: dragover_eq abc_dragging abc_after_110) (simp add: drag_eval fun_eq_iff)

lemma find_conj_filter: "find (\<lambda>n. A n \<and> B n) xs = find B (filter A xs)"
  by (induction xs) auto

lemma filter_conj_filter: "filter (\<lambda>n. A n \<and> B n) xs = filter B (filter A xs)"
  by (induction xs) auto

lemma null_reorder_core:
  assumes "distinct (children p0)"
    and "run (DragStart t # moves) (updatePositions p0) = Inr q"
    and "children q = children p0"
  shows "run (DragStart t # moves @ [DragEnd]) (updatePositions p0) = Inr (dragend q) \<and>
         positions (dragend q) = positions (updatePositions p0)"
proof -
  let ?p = "updatePositions p0"
  let ?rs = "querySelectorAll_rows p0"
  from run_frame [of "DragStart t # moves" ?p] assms(2)
  have dnd: "\<forall>n. dnd_row (attrs q n) = dnd_row (attrs p0 n)"
    and none: "\<forall>n. (position_value (attrs q n) = None) = (position_value (attrs p0 n) = None)"
    by auto
  have rq: "querySelectorAll_rows q = ?rs"
    using assms(3) dnd by (rule rows_cong)
  have dq: "distinct (children q)"
    using assms(1,3) by simp
  have "run ((DragStart t # moves) @ [DragEnd]) ?p = Inr (dragend q)"
    using assms(2) by (simp only: run_append) simp
  then have run: "run (DragStart t # moves @ [DragEnd]) ?p = Inr (dragend q)"
    by simp
  have "positions (dragend q) = positions ?p"
  proof (rule nth_equalityI)
    show "length (positions (dragend q)) = length (positions ?p)"
      by (simp add: positions_def rq)
  next
    fix i assume "i < length (positions (dragend q))"
    then have i: "i < length ?rs" by (simp add: positions_def rq)
    show "positions (dragend q) ! i = positions ?p ! i"
    proof (cases "position_value (attrs p0 (?rs ! i)) = None")
      case True
      then have "position_value (attrs (dragend q) (?rs ! i)) = None"
        using none by (simp add: dragend_frame)
      then have a: "positions (dragend q) ! i = None"
        using i by (simp add: positions_def rq)
      have "position_value (attrs ?p (?rs ! i)) = None"
        using True by simp
      then have "positions ?p ! i = None"
        using i by (simp add: positions_def)
      with a show ?thesis by simp
    next
      case False
      then have "position_value (attrs q (querySelectorAll_rows q ! i)) \<noteq> None"
        using none by (simp add: rq)
      with dq i have "position_value (attrs (dragend q) (?rs ! i)) = Some (ToString (i + 1))"
        using dragend_at [of q i] by (simp add: rq)
      moreover have "position_value (attrs ?p (?rs ! i)) = Some (ToString (i + 1))"
        using assms(1) i False by (rule updatePositions_at)
      ultimately show ?thesis using i by (simp add: positions_def rq)
    qed
  qed
  with run show ?thesis by simp
qed

section \<open>Properties of the clamp\<close>

lemma js_less_range:
  "v \<noteq> NaN \<Longrightarrow> \<not> js_less v (Finite 0) \<Longrightarrow> \<not> js_less (Finite 99) v \<Longrightarrow>
   \<exists>x. v = Finite x \<and> 0 \<le> x \<and> x \<le> 99"
  by (cases v) auto

lemma Number_of_value_0: "Number_of_value (ToString 0) = Finite 0"
  by code_simp

lemma Number_of_value_99: "Number_of_value (ToString 99) = Finite 99"
  by code_simp

lemma ToString_0: "ToString 0 = ''0''"
  by (simp add: ToString_digit digit_char_def)

lemma ToString_99: "ToString 99 = ''99''"
  by code_simp

lemma is_sets_field_update [simp]: "is_sets_field (el\<lparr>el_value := v\<rparr>) = is_sets_field el"
  by (simp add: is_sets_field_def)

section \<open>The claims\<close>

text \<open>
  C1. Whatever events come before it, a drag-end leaves the table with the same rows (no
  row is created, destroyed or duplicated), and the position input of the row at index
  \<open>i\<close> (from 0, top to bottom) holds the numeral of \<open>i + 1\<close>. No two rows share a
  position, and when every row has a position input the positions are exactly
  \<open>1, ..., N\<close> in visual order. The children of a DOM node are distinct nodes.
\<close>

theorem drag_end_positions:
  assumes "distinct (children p)"
  shows "\<exists>p'. run (es @ [DragEnd]) p = Inr p' \<and>
      set (querySelectorAll_rows p') = set (querySelectorAll_rows p) \<and>
      distinct (querySelectorAll_rows p') \<and>
      length (querySelectorAll_rows p') = length (querySelectorAll_rows p) \<and>
      (\<forall>i < length (querySelectorAll_rows p').
         position_value (attrs p (querySelectorAll_rows p' ! i)) \<noteq> None \<longrightarrow>
         position_value (attrs p' (querySelectorAll_rows p' ! i)) = Some (ToString (i + 1))) \<and>
      (\<forall>i < length (querySelectorAll_rows p'). \<forall>j < length (querySelectorAll_rows p').
         i \<noteq> j \<and> positions p' ! i \<noteq> None \<longrightarrow> positions p' ! i \<noteq> positions p' ! j) \<and>
      ((\<forall>n \<in> set (querySelectorAll_rows p). position_value (attrs p n) \<noteq> None) \<longrightarrow>
         positions p' = map (\<lambda>i. Some (ToString i)) [1..<Suc (length (querySelectorAll_rows p))])"
proof -
  from run_frame [of es p] obtain q where q: "run es p = Inr q"
    "mset (children q) = mset (children p)"
    "\<forall>n. dnd_row (attrs q n) = dnd_row (attrs p n)"
    "\<forall>n. (position_value (attrs q n) = None) = (position_value (attrs p n) = None)"
    by blast
  let ?p' = "dragend q"
  let ?rs = "querySelectorAll_rows q"
  have run: "run (es @ [DragEnd]) p = Inr ?p'"
    using q(1) by (simp add: run_append)
  have dq: "distinct (children q)"
    using q(2) assms by (metis mset_eq_imp_distinct_iff)
  have rows: "querySelectorAll_rows ?p' = ?rs" by simp
  have mrows: "mset ?rs = mset (querySelectorAll_rows p)"
    using q(2,3) by (rule rows_mset)
  have srows: "set ?rs = set (querySelectorAll_rows p)"
    using mrows by (rule mset_eq_setD)
  have drows: "distinct ?rs"
    using dq by (simp add: querySelectorAll_rows_def)
  have lrows: "length ?rs = length (querySelectorAll_rows p)"
    using mrows by (rule mset_eq_length)
  have at: "position_value (attrs ?p' (?rs ! i)) = Some (ToString (i + 1))"
    if "i < length ?rs" "position_value (attrs p (?rs ! i)) \<noteq> None" for i
    using that q(4) dq by (simp add: dragend_at)
  have none: "(position_value (attrs ?p' n) = None) = (position_value (attrs p n) = None)" for n
    using q(4) by (simp add: dragend_frame)
  have pos: "positions ?p' ! i = position_value (attrs ?p' (?rs ! i))" if "i < length ?rs" for i
    using that by (simp add: positions_def)
  have share: "positions ?p' ! i \<noteq> positions ?p' ! j"
    if "i < length ?rs" "j < length ?rs" "i \<noteq> j" "positions ?p' ! i \<noteq> None" for i j
  proof (cases "position_value (attrs p (?rs ! j)) = None")
    case True
    then have "positions ?p' ! j = None" using that(2) by (simp add: pos none)
    with that(4) show ?thesis by simp
  next
    case False
    from that(1,4) have "position_value (attrs p (?rs ! i)) \<noteq> None" by (simp add: pos none)
    with that(1) have "positions ?p' ! i = Some (ToString (i + 1))" by (simp add: pos at)
    moreover from False that(2) have "positions ?p' ! j = Some (ToString (j + 1))" by (simp add: pos at)
    ultimately show ?thesis using that(3) by (auto dest: ToString_inject)
  qed
  have all: "positions ?p' = map (\<lambda>i. Some (ToString i)) [1..<Suc (length (querySelectorAll_rows p))]"
    if "\<forall>n \<in> set (querySelectorAll_rows p). position_value (attrs p n) \<noteq> None"
  proof (rule nth_equalityI)
    show "length (positions ?p') = length (map (\<lambda>i. Some (ToString i)) [1..<Suc (length (querySelectorAll_rows p))])"
      by (simp add: positions_def lrows del: upt_Suc)
  next
    fix i assume "i < length (positions ?p')"
    then have i: "i < length ?rs" by (simp add: positions_def)
    then have "?rs ! i \<in> set (querySelectorAll_rows p)" using srows by (metis nth_mem)
    with that have "position_value (attrs p (?rs ! i)) \<noteq> None" by blast
    with i have "positions ?p' ! i = Some (ToString (i + 1))" by (simp add: pos at)
    moreover have "map (\<lambda>i. Some (ToString i)) [1..<Suc (length (querySelectorAll_rows p))] ! i = Some (ToString (i + 1))"
      using i lrows by (simp del: upt_Suc)
    ultimately show "positions ?p' ! i = map (\<lambda>i. Some (ToString i)) [1..<Suc (length (querySelectorAll_rows p))] ! i"
      by simp
  qed
  show ?thesis
    apply (rule exI [of _ ?p'])
    apply (simp only: rows)
    using run srows drows lrows at share all apply blast
    done
qed

theorem drag_end_positions_witness:
  "distinct (children abc_page) \<and>
   (\<exists>p'. run ([DragStart 2, DragOver abc_rect (Finite 110)] @ [DragEnd]) abc_page = Inr p' \<and>
      set (querySelectorAll_rows p') = {0, 1, 2} \<and>
      positions p' = [Some ''1'', Some ''2'', Some ''3''])"
proof -
  have d: "distinct (children abc_page)"
    by (simp add: abc_page_def)
  have r: "querySelectorAll_rows abc_page = [0, 1, 2]"
    by (simp add: abc_page_def querySelectorAll_rows_def)
  have a: "\<forall>n \<in> set (querySelectorAll_rows abc_page). position_value (attrs abc_page n) \<noteq> None"
    by (simp add: abc_page_def)
  have t: "map (\<lambda>i. Some (ToString i)) [1..<Suc (length (querySelectorAll_rows abc_page))] =
      [Some ''1'', Some ''2'', Some ''3'']"
    by (simp add: r upt_rec ToString_digit digit_char_def)
  from drag_end_positions [OF d, of "[DragStart 2, DragOver abc_rect (Finite 110)]"]
  obtain p' where "run ([DragStart 2, DragOver abc_rect (Finite 110)] @ [DragEnd]) abc_page = Inr p'"
    "set (querySelectorAll_rows p') = set (querySelectorAll_rows abc_page)"
    "(\<forall>n \<in> set (querySelectorAll_rows abc_page). position_value (attrs abc_page n) \<noteq> None) \<longrightarrow>
       positions p' = map (\<lambda>i. Some (ToString i)) [1..<Suc (length (querySelectorAll_rows abc_page))]"
    by blast
  with a t r d show ?thesis by auto
qed

text \<open>
  C2. The claim compares the pointer with the exact midpoint of a row; the handler compares
  the binary64 value of \<^verbatim>\<open>y - box.top - box.height / 2\<close> with zero. With a row 1000 pixels
  high whose top is at \<open>2\<^sup>-\<^sup>5\<^sup>0\<close> and the pointer at 500, the midpoint is strictly below
  the pointer, but \<^verbatim>\<open>500 - box.top\<close> rounds to 500 and the offset is 0: the handler does
  not move the dragged row before that row, it appends it.
\<close>

theorem dragover_midpoint_counterexample:
  "querySelector_dragging two_rows = Some 0 \<and>
   querySelectorAll_not_dragging two_rows = [1] \<and>
   spec_midpoint_below near_rect (Finite 500) 1 \<and>
   move_before 0 (find (spec_midpoint_below near_rect (Finite 500)) (querySelectorAll_not_dragging two_rows))
     (children two_rows) = [0, 1] \<and>
   pointer_offset near_rect (Finite 500) 1 = Finite 0 \<and>
   dragover near_rect (Finite 500) two_rows = Inr (two_rows\<lparr>children := [1, 0]\<rparr>)"
proof -
  have q: "querySelector_dragging two_rows = Some 0"
    by (simp add: two_rows_def querySelector_dragging_def)
  have els: "querySelectorAll_not_dragging two_rows = [1]"
    by (simp add: two_rows_def querySelectorAll_not_dragging_def)
  have below: "spec_midpoint_below near_rect (Finite 500) 1"
    by (simp add: spec_midpoint_below_def near_rect_def)
  have first: "find (spec_midpoint_below near_rect (Finite 500)) [1] = Some 1"
    using below by simp
  have spec: "move_before 0 (find (spec_midpoint_below near_rect (Finite 500))
      (querySelectorAll_not_dragging two_rows)) (children two_rows) = [0, 1]"
    by (simp only: els first) (simp add: move_before_def two_rows_def)
  have off: "pointer_offset near_rect (Finite 500) 1 = Finite 0"
    by code_simp
  have after: "getDragAfterElement near_rect two_rows (Finite 500) = None"
    by code_simp
  have "dragover near_rect (Finite 500) two_rows = Inr (two_rows\<lparr>children := [1, 0]\<rparr>)"
    by (simp add: dragover_eq q after) (simp add: move_before_def two_rows_def)
  with q els below spec off show ?thesis by blast
qed

text \<open>
  C2, as amended. When the rows that are not being dragged lie top to bottom in document
  order, as the offsets computed by the handler tell it, a dragover at the vertical
  coordinate \<open>y\<close> moves the dragged row immediately before the first of them whose
  computed offset, the binary64 value of \<^verbatim>\<open>y - box.top - box.height / 2\<close>, is a negative
  number other than \<^verbatim>\<open>-Infinity\<close>, and to the end of the container when there is none.
  Where that offset is computed without rounding, such a row is one whose vertical
  midpoint is strictly below \<open>y\<close>. For the rows A, B, C with the positions 1, 2, 3,
  dragging C above A and ending the drag gives the order C, A, B with the positions
  1, 2, 3.
\<close>

theorem dragover_before_first_below:
  assumes "querySelector_dragging p = Some d"
    and "top_to_bottom rect y (querySelectorAll_not_dragging p)"
  shows "dragover rect y p =
           Inr (p\<lparr>children :=
                  move_before d (find (below_pointer rect y) (querySelectorAll_not_dragging p))
                    (children p)\<rparr>) \<and>
         (\<forall>n y' t h. y = Finite y' \<and> box_top (rect n) = Finite t \<and> box_height (rect n) = Finite h \<and>
            pointer_offset rect y n = Finite (y' - t - h / 2) \<longrightarrow>
            below_pointer rect y n = spec_midpoint_below rect y n) \<and>
         (\<exists>p'. run [DragStart 2, DragOver abc_rect (Finite 110), DragEnd] abc_page = Inr p' \<and>
            children p' = [2, 0, 1] \<and>
            map (\<lambda>n. position_value (attrs p' n)) [2, 0, 1] = [Some ''1'', Some ''2'', Some ''3''])"
proof -
  have move: "dragover rect y p =
           Inr (p\<lparr>children :=
                  move_before d (find (below_pointer rect y) (querySelectorAll_not_dragging p))
                    (children p)\<rparr>)"
    using assms by (simp add: dragover_eq getDragAfterElement_sorted)
  have exact: "\<forall>n y' t h. y = Finite y' \<and> box_top (rect n) = Finite t \<and> box_height (rect n) = Finite h \<and>
            pointer_offset rect y n = Finite (y' - t - h / 2) \<longrightarrow>
            below_pointer rect y n = spec_midpoint_below rect y n"
  proof (intro allI impI)
    fix n y' t h
    assume "y = Finite y' \<and> box_top (rect n) = Finite t \<and> box_height (rect n) = Finite h \<and>
            pointer_offset rect y n = Finite (y' - t - h / 2)"
    then show "below_pointer rect y n = spec_midpoint_below rect y n"
      using below_pointer_exact [of y y' rect n t h] by blast
  qed
  have abc: "\<exists>p'. run [DragStart 2, DragOver abc_rect (Finite 110), DragEnd] abc_page = Inr p' \<and>
            children p' = [2, 0, 1] \<and>
            map (\<lambda>n. position_value (attrs p' n)) [2, 0, 1] = [Some ''1'', Some ''2'', Some ''3'']"
    by (subst abc_scenario) simp
  from move exact abc show ?thesis by blast
qed

theorem dragover_before_first_below_witness:
  "querySelector_dragging (dragstart 2 abc_page) = Some 2 \<and>
   top_to_bottom abc_rect (Finite 110) (querySelectorAll_not_dragging (dragstart 2 abc_page)) \<and>
   (\<exists>p'. dragover abc_rect (Finite 110) (dragstart 2 abc_page) = Inr p' \<and> children p' = [2, 0, 1]) \<and>
   (\<exists>p'. dragover abc_rect (Finite 170) (dragstart 0 abc_page) = Inr p' \<and> children p' = [1, 0, 2]) \<and>
   (\<exists>p'. dragover abc_rect (Finite 500) (dragstart 0 abc_page) = Inr p' \<and> children p' = [1, 2, 0]) \<and>
   pointer_offset abc_rect (Finite 110) 0 = Finite (110 - 100 - 40 / 2) \<and>
   below_pointer abc_rect (Finite 110) 0 \<and> spec_midpoint_below abc_rect (Finite 110) 0"
proof -
  have h1: "querySelector_dragging (dragstart 2 abc_page) = Some 2"
    by (simp add: abc_dragging)
  have h2: "top_to_bottom abc_rect (Finite 110) (querySelectorAll_not_dragging (dragstart 2 abc_page))"
    by code_simp
  have h3: "querySelector_dragging (dragstart 0 abc_page) = Some 0"
    by (simp add: abc_dragging)
  have h4: "top_to_bottom abc_rect (Finite 170) (querySelectorAll_not_dragging (dragstart 0 abc_page))"
    by code_simp
  have h5: "top_to_bottom abc_rect (Finite 500) (querySelectorAll_not_dragging (dragstart 0 abc_page))"
    by code_simp
  have f1: "find (below_pointer abc_rect (Finite 110)) (querySelectorAll_not_dragging (dragstart 2 abc_page)) = Some 0"
    by code_simp
  have f2: "find (below_pointer abc_rect (Finite 170)) (querySelectorAll_not_dragging (dragstart 0 abc_page)) = Some 2"
    by code_simp
  have f3: "find (below_pointer abc_rect (Finite 500)) (querySelectorAll_not_dragging (dragstart 0 abc_page)) = None"
    by code_simp
  have o: "pointer_offset abc_rect (Finite 110) 0 = Finite (110 - 100 - 40 / 2)"
    by code_simp
  have t: "box_top (abc_rect 0) = Finite 100" and h: "box_height (abc_rect 0) = Finite 40"
    by (simp_all add: abc_rect_def)
  have "\<exists>p'. dragover abc_rect (Finite 110) (dragstart 2 abc_page) = Inr p' \<and> children p' = [2, 0, 1]"
    using dragover_before_first_below [OF h1 h2] by (simp add: f1) (simp add: drag_eval)
  moreover have "\<exists>p'. dragover abc_rect (Finite 170) (dragstart 0 abc_page) = Inr p' \<and> children p' = [1, 0, 2]"
    using dragover_before_first_below [OF h3 h4] by (simp add: f2) (simp add: drag_eval)
  moreover have "\<exists>p'. dragover abc_rect (Finite 500) (dragstart 0 abc_page) = Inr p' \<and> children p' = [1, 2, 0]"
    using dragover_before_first_below [OF h3 h5] by (simp add: f3) (simp add: drag_eval)
  moreover from dragover_before_first_below [OF h1 h2] t h o
  have e: "below_pointer abc_rect (Finite 110) 0 = spec_midpoint_below abc_rect (Finite 110) 0"
    by blast
  moreover have "spec_midpoint_below abc_rect (Finite 110) 0"
    by (simp add: spec_midpoint_below_def abc_rect_def)
  ultimately show ?thesis using h1 h2 o by blast
qed

text \<open>
  C3. In the handler that saves the plan and then adds the exercise, the add request is
  sent at most once and only after the save request has settled with a success status;
  when the save request fails or is answered with another status, no add request is sent
  and the page is not reloaded. When the form has a submit button, the button is disabled
  before the first request and enabled again by the very last step, and nothing in between
  changes it. The handler always returns.
\<close>

theorem save_then_add_order:
  assumes "submit_add addBtn saveRes addRes p = (p', tr, c)"
  shows "(Fetch AddRequest \<in> set tr \<longrightarrow>
            (\<exists>pre post st. tr = pre @ Fetch AddRequest # post \<and>
               Fetch AddRequest \<notin> set pre \<and> Fetch AddRequest \<notin> set post \<and>
               saveRes = Response st \<and> ok st \<and>
               Fetch SaveRequest \<in> set pre \<and> Settled SaveRequest (Response st) \<in> set pre)) \<and>
         ((\<forall>st. saveRes = Response st \<longrightarrow> \<not> ok st) \<longrightarrow>
            Fetch AddRequest \<notin> set tr \<and> Reload \<notin> set tr) \<and>
         (addBtn \<longrightarrow>
            (\<exists>mid. tr = [PreventDefault, SetDisabled True] @ mid @ [SetDisabled False] \<and>
               (\<forall>b. SetDisabled b \<notin> set mid) \<and> Fetch SaveRequest \<in> set mid)) \<and>
         c = Fulfilled"
proof -
  let ?dis = "if addBtn then [SetDisabled True] else []"
  let ?fin = "if addBtn then [SetDisabled False] else []"
  let ?save = "[Fetch SaveRequest, Settled SaveRequest saveRes]"
  let ?add = "[Fetch AddRequest, Settled AddRequest addRes]"
  have c: "c = Fulfilled"
    using assms by (simp add: submit_add_def Let_def)
  consider (fail) a where "\<forall>st. saveRes = Response st \<longrightarrow> \<not> ok st"
      "tr = PreventDefault # ?dis @ ?save @ [Alert a] @ ?fin"
    | (sent) st a where "saveRes = Response st" "ok st" "a = Reload \<or> (\<exists>m. a = Alert m)"
      "tr = (PreventDefault # ?dis @ ?save) @ Fetch AddRequest # ([Settled AddRequest addRes, a] @ ?fin)"
  proof (cases saveRes)
    case Rejected
    with assms have "tr = PreventDefault # ?dis @ ?save @ [Alert NetworkError] @ ?fin"
      by (simp add: submit_add_def Let_def)
    with Rejected show ?thesis by (intro fail [of NetworkError]) simp_all
  next
    case (Response s1)
    show ?thesis
    proof (cases "ok s1")
      case False
      with Response assms have "tr = PreventDefault # ?dis @ ?save @ [Alert SaveFailed] @ ?fin"
        by (simp add: submit_add_def Let_def)
      with Response False show ?thesis by (intro fail [of SaveFailed]) simp_all
    next
      case True
      with Response assms obtain a where "a = Reload \<or> (\<exists>m. a = Alert m)"
        "tr = (PreventDefault # ?dis @ ?save) @ Fetch AddRequest # ([Settled AddRequest addRes, a] @ ?fin)"
        by (cases addRes) (auto simp add: submit_add_def Let_def split: if_splits)
      with Response True show ?thesis by (intro sent [of s1 a]) simp_all
    qed
  qed
  then show ?thesis
  proof cases
    case fail
    have "addBtn \<longrightarrow> (\<exists>mid. tr = [PreventDefault, SetDisabled True] @ mid @ [SetDisabled False] \<and>
               (\<forall>b. SetDisabled b \<notin> set mid) \<and> Fetch SaveRequest \<in> set mid)"
      using fail(2) by (auto intro!: exI [of _ "?save @ [Alert a]"])
    moreover have "Fetch AddRequest \<notin> set tr \<and> Reload \<notin> set tr"
      using fail(2) by auto
    ultimately show ?thesis using c by blast
  next
    case sent
    have "addBtn \<longrightarrow> (\<exists>mid. tr = [PreventDefault, SetDisabled True] @ mid @ [SetDisabled False] \<and>
               (\<forall>b. SetDisabled b \<notin> set mid) \<and> Fetch SaveRequest \<in> set mid)"
      using sent(3,4) by (auto intro!: exI [of _ "?save @ ?add @ [a]"])
    moreover have "\<exists>pre post st. tr = pre @ Fetch AddRequest # post \<and>
               Fetch AddRequest \<notin> set pre \<and> Fetch AddRequest \<notin> set post \<and>
               saveRes = Response st \<and> ok st \<and>
               Fetch SaveRequest \<in> set pre \<and> Settled SaveRequest (Response st) \<in> set pre"
      apply (rule exI [of _ "PreventDefault # ?dis @ ?save"])
      apply (rule exI [of _ "[Settled AddRequest addRes, a] @ ?fin"])
      apply (rule exI [of _ st])
      using sent apply auto
      done
    moreover have "\<not> (\<forall>st. saveRes = Response st \<longrightarrow> \<not> ok st)"
      using sent(1,2) by simp
    ultimately show ?thesis using c by blast
  qed
qed

theorem save_then_add_order_witness:
  "(\<exists>p' tr c. submit_add True (Response 200) (Response 200) abc_page = (p', tr, c) \<and>
      tr = [PreventDefault, SetDisabled True, Fetch SaveRequest, Settled SaveRequest (Response 200),
            Fetch AddRequest, Settled AddRequest (Response 200), Reload, SetDisabled False]) \<and>
   (\<exists>p' tr c. submit_add True (Response 500) (Response 200) abc_page = (p', tr, c) \<and>
      (\<forall>st. Response 500 = Response st \<longrightarrow> \<not> ok st) \<and>
      Fetch AddRequest \<notin> set tr \<and>
      tr = [PreventDefault, SetDisabled True, Fetch SaveRequest, Settled SaveRequest (Response 500),
            Alert SaveFailed, SetDisabled False])"
proof -
  obtain p1 t1 c1 where a: "submit_add True (Response 200) (Response 200) abc_page = (p1, t1, c1)"
    by (metis prod_cases3)
  obtain p2 t2 c2 where b: "submit_add True (Response 500) (Response 200) abc_page = (p2, t2, c2)"
    by (metis prod_cases3)
  have n: "\<forall>st. Response 500 = Response st \<longrightarrow> \<not> ok st"
    by (simp add: ok_def)
  from save_then_add_order [OF b] n have "Fetch AddRequest \<notin> set t2" by blast
  moreover from save_then_add_order [OF a] have "c1 = Fulfilled" by blast
  moreover from a have "t1 = [PreventDefault, SetDisabled True, Fetch SaveRequest,
      Settled SaveRequest (Response 200), Fetch AddRequest, Settled AddRequest (Response 200), Reload,
      SetDisabled False]"
    by (auto simp: submit_add_def Let_def ok_def)
  moreover from b have "t2 = [PreventDefault, SetDisabled True, Fetch SaveRequest,
      Settled SaveRequest (Response 500), Alert SaveFailed, SetDisabled False]"
    by (auto simp: submit_add_def Let_def ok_def)
  ultimately show ?thesis using a b n by auto
qed

text \<open>
  C4. The claim asks for an alert after a failed removal of either kind. The click
  handler of edit.js awaits \<^verbatim>\<open>fetch\<close> outside any \<^verbatim>\<open>try\<close>: when the request cannot be sent or
  completed, the exception leaves the handler and no alert is shown. The delete handler
  of index.js catches the same failure and alerts, and a response with a failure status
  is reported by both.
\<close>

theorem remove_network_failure_unreported:
  "click_remove (Some ''/plans/1/remove'') (Some ''7'') True Rejected abc_page =
     (abc_page,
      [Confirm ConfirmRemove True, Fetch (RemoveRequest ''/plans/1/remove'' ''7''),
       Settled (RemoveRequest ''/plans/1/remove'' ''7'') Rejected],
      Unhandled) \<and>
   click_delete (Some ''1'') True Rejected =
     ([Confirm ConfirmDelete True, Fetch (DeleteRequest ''/plans/1/delete''),
       Settled (DeleteRequest ''/plans/1/delete'') Rejected, Alert DeleteNetworkError],
      Fulfilled) \<and>
   click_remove (Some ''/plans/1/remove'') (Some ''7'') True (Response 500) abc_page =
     (abc_page,
      [Confirm ConfirmRemove True, Fetch (RemoveRequest ''/plans/1/remove'' ''7''),
       Settled (RemoveRequest ''/plans/1/remove'' ''7'') (Response 500), Alert RemoveFailed],
      Fulfilled)"
  by (simp add: click_remove_def click_delete_def truthy_def ok_def Let_def)

text \<open>
  C5. In the click handler of edit.js, with a remove URL and a click on a remove button:
  when the user answers the dialog with yes, the request is sent to the remove URL with
  the exercise id of the button and awaited; when the user answers no, the dialog is all
  that happens and the page is as before. So a request is sent exactly when the user
  confirms. A response with a success status is followed by a reload and nothing else; a
  response with another status is followed by the failure alert and no reload, and the
  page, with every row of it, is as before. Without a button or without a remove URL no
  dialog opens and nothing is sent. The delete handler of index.js behaves in the same
  way for the selected plan.
\<close>

theorem removal_request_iff_confirmed:
  assumes "click_remove removeUrl btn answer res p = (p', tr, c)"
    and "click_delete sel answer2 res2 = (tr2, c2)"
  shows "(removeUrl = Some url \<and> url \<noteq> [] \<and> btn = Some exId \<longrightarrow>
            ((\<exists>r. Fetch r \<in> set tr) \<longleftrightarrow> answer) \<and>
            (answer \<longrightarrow>
               take 3 tr = [Confirm ConfirmRemove True, Fetch (RemoveRequest url exId),
                            Settled (RemoveRequest url exId) res]) \<and>
            (\<not> answer \<longrightarrow> tr = [Confirm ConfirmRemove False] \<and> p' = p \<and> c = Fulfilled) \<and>
            (answer \<and> res = Response st \<and> ok st \<longrightarrow>
               tr = [Confirm ConfirmRemove True, Fetch (RemoveRequest url exId),
                     Settled (RemoveRequest url exId) res, Reload] \<and> c = Fulfilled) \<and>
            (answer \<and> res = Response st \<and> \<not> ok st \<longrightarrow>
               tr = [Confirm ConfirmRemove True, Fetch (RemoveRequest url exId),
                     Settled (RemoveRequest url exId) res, Alert RemoveFailed] \<and>
               p' = p \<and> c = Fulfilled)) \<and>
         (btn = None \<longrightarrow> tr = [] \<and> p' = p) \<and>
         (btn \<noteq> None \<and> \<not> truthy removeUrl \<longrightarrow> tr = [Alert RemoveUrlMissing] \<and> p' = p) \<and>
         ((\<exists>r. Fetch r \<in> set tr) \<longleftrightarrow> Confirm ConfirmRemove True \<in> set tr) \<and>
         (\<forall>r. Fetch r \<in> set tr \<longrightarrow>
            answer \<and> (\<exists>u e. removeUrl = Some u \<and> btn = Some e \<and> r = RemoveRequest u e)) \<and>
         (Confirm ConfirmRemove False \<in> set tr \<longrightarrow> tr = [Confirm ConfirmRemove False] \<and> p' = p) \<and>
         (\<forall>r s. Settled r (Response s) \<in> set tr \<and> ok s \<longrightarrow> last tr = Reload) \<and>
         (\<forall>r s. Settled r (Response s) \<in> set tr \<and> \<not> ok s \<longrightarrow>
            Reload \<notin> set tr \<and> last tr = Alert RemoveFailed \<and> p' = p) \<and>
         (sel = Some plan \<and> plan \<noteq> [] \<longrightarrow>
            ((\<exists>r. Fetch r \<in> set tr2) \<longleftrightarrow> answer2) \<and>
            (\<not> answer2 \<longrightarrow> tr2 = [Confirm ConfirmDelete False]) \<and>
            (answer2 \<and> res2 = Response st2 \<and> ok st2 \<longrightarrow>
               tr2 = [Confirm ConfirmDelete True, Fetch (DeleteRequest (''/plans/'' @ plan @ ''/delete'')),
                      Settled (DeleteRequest (''/plans/'' @ plan @ ''/delete'')) res2, Reload]) \<and>
            (answer2 \<and> res2 = Response st2 \<and> \<not> ok st2 \<longrightarrow>
               tr2 = [Confirm ConfirmDelete True, Fetch (DeleteRequest (''/plans/'' @ plan @ ''/delete'')),
                      Settled (DeleteRequest (''/plans/'' @ plan @ ''/delete'')) res2,
                      Alert DeleteFailed])) \<and>
         ((\<exists>r. Fetch r \<in> set tr2) \<longleftrightarrow> Confirm ConfirmDelete True \<in> set tr2) \<and>
         (Confirm ConfirmDelete False \<in> set tr2 \<longrightarrow> tr2 = [Confirm ConfirmDelete False]) \<and>
         (\<forall>r s. Settled r (Response s) \<in> set tr2 \<and> ok s \<longrightarrow> last tr2 = Reload) \<and>
         (\<forall>r s. Settled r (Response s) \<in> set tr2 \<and> \<not> ok s \<longrightarrow>
            Reload \<notin> set tr2 \<and> last tr2 = Alert DeleteFailed)"
proof -
  note splits = option.splits if_splits fetch_outcome.splits
  have p: "p' = p"
    using assms(1) by (auto simp: click_remove_def Let_def split: splits)
  have i1: "(\<exists>r. Fetch r \<in> set tr) \<longleftrightarrow> answer"
    if "removeUrl = Some url" "url \<noteq> []" "btn = Some exId"
    using assms(1) that by (auto simp: click_remove_def truthy_def Let_def split: splits)
  have i2: "take 3 tr = [Confirm ConfirmRemove True, Fetch (RemoveRequest url exId),
                            Settled (RemoveRequest url exId) res]"
    if "removeUrl = Some url" "url \<noteq> []" "btn = Some exId" "answer"
    using assms(1) that by (auto simp: click_remove_def truthy_def Let_def split: splits)
  have i3: "tr = [Confirm ConfirmRemove False] \<and> c = Fulfilled"
    if "removeUrl = Some url" "url \<noteq> []" "btn = Some exId" "\<not> answer"
    using assms(1) that by (auto simp: click_remove_def truthy_def Let_def split: splits)
  have i4: "tr = [Confirm ConfirmRemove True, Fetch (RemoveRequest url exId),
                     Settled (RemoveRequest url exId) res, Reload] \<and> c = Fulfilled"
    if "removeUrl = Some url" "url \<noteq> []" "btn = Some exId" "answer" "res = Response st" "ok st"
    using assms(1) that by (auto simp: click_remove_def truthy_def Let_def split: splits)
  have i5: "tr = [Confirm ConfirmRemove True, Fetch (RemoveRequest url exId),
                     Settled (RemoveRequest url exId) res, Alert RemoveFailed] \<and> c = Fulfilled"
    if "removeUrl = Some url" "url \<noteq> []" "btn = Some exId" "answer" "res = Response st" "\<not> ok st"
    using assms(1) that by (auto simp: click_remove_def truthy_def Let_def split: splits)
  have n1: "btn = None \<longrightarrow> tr = []"
    using assms(1) by (auto simp: click_remove_def Let_def split: splits)
  have n2: "btn \<noteq> None \<and> \<not> truthy removeUrl \<longrightarrow> tr = [Alert RemoveUrlMissing]"
    using assms(1) by (auto simp: click_remove_def Let_def split: splits)
  have a1: "(\<exists>r. Fetch r \<in> set tr) \<longleftrightarrow> Confirm ConfirmRemove True \<in> set tr"
    using assms(1) by (auto simp: click_remove_def Let_def split: splits)
  have a2: "\<forall>r. Fetch r \<in> set tr \<longrightarrow>
            answer \<and> (\<exists>u e. removeUrl = Some u \<and> btn = Some e \<and> r = RemoveRequest u e)"
    using assms(1) by (auto simp: click_remove_def truthy_def Let_def split: splits)
  have a3: "Confirm ConfirmRemove False \<in> set tr \<longrightarrow> tr = [Confirm ConfirmRemove False]"
    using assms(1) by (auto simp: click_remove_def Let_def split: splits)
  have a4: "\<forall>r s. Settled r (Response s) \<in> set tr \<and> ok s \<longrightarrow> last tr = Reload"
    using assms(1) by (auto simp: click_remove_def Let_def split: splits)
  have a5: "\<forall>r s. Settled r (Response s) \<in> set tr \<and> \<not> ok s \<longrightarrow>
            Reload \<notin> set tr \<and> last tr = Alert RemoveFailed"
    using assms(1) by (auto simp: click_remove_def Let_def split: splits)
  have j1: "(\<exists>r. Fetch r \<in> set tr2) \<longleftrightarrow> answer2" if "sel = Some plan" "plan \<noteq> []"
    using assms(2) that by (auto simp: click_delete_def truthy_def Let_def split: splits)
  have j3: "tr2 = [Confirm ConfirmDelete False]" if "sel = Some plan" "plan \<noteq> []" "\<not> answer2"
    using assms(2) that by (auto simp: click_delete_def truthy_def Let_def split: splits)
  have j4: "tr2 = [Confirm ConfirmDelete True, Fetch (DeleteRequest (''/plans/'' @ plan @ ''/delete'')),
                      Settled (DeleteRequest (''/plans/'' @ plan @ ''/delete'')) res2, Reload]"
    if "sel = Some plan" "plan \<noteq> []" "answer2" "res2 = Response st2" "ok st2"
    using assms(2) that by (auto simp: click_delete_def truthy_def Let_def split: splits)
  have j5: "tr2 = [Confirm ConfirmDelete True, Fetch (DeleteRequest (''/plans/'' @ plan @ ''/delete'')),
                      Settled (DeleteRequest (''/plans/'' @ plan @ ''/delete'')) res2,
                      Alert DeleteFailed]"
    if "sel = Some plan" "plan \<noteq> []" "answer2" "res2 = Response st2" "\<not> ok st2"
    using assms(2) that by (auto simp: click_delete_def truthy_def Let_def split: splits)
  have b1: "(\<exists>r. Fetch r \<in> set tr2) \<longleftrightarrow> Confirm ConfirmDelete True \<in> set tr2"
    using assms(2) by (auto simp: click_delete_def Let_def split: splits)
  have b3: "Confirm ConfirmDelete False \<in> set tr2 \<longrightarrow> tr2 = [Confirm ConfirmDelete False]"
    using assms(2) by (auto simp: click_delete_def Let_def split: splits)
  have b4: "\<forall>r s. Settled r (Response s) \<in> set tr2 \<and> ok s \<longrightarrow> last tr2 = Reload"
    using assms(2) by (auto simp: click_delete_def Let_def split: splits)
  have b5: "\<forall>r s. Settled r (Response s) \<in> set tr2 \<and> \<not> ok s \<longrightarrow>
            Reload \<notin> set tr2 \<and> last tr2 = Alert DeleteFailed"
    using assms(2) by (auto simp: click_delete_def Let_def split: splits)
  have remove: "removeUrl = Some url \<and> url \<noteq> [] \<and> btn = Some exId \<longrightarrow>
            ((\<exists>r. Fetch r \<in> set tr) \<longleftrightarrow> answer) \<and>
            (answer \<longrightarrow>
               take 3 tr = [Confirm ConfirmRemove True, Fetch (RemoveRequest url exId),
                            Settled (RemoveRequest url exId) res]) \<and>
            (\<not> answer \<longrightarrow> tr = [Confirm ConfirmRemove False] \<and> p' = p \<and> c = Fulfilled) \<and>
            (answer \<and> res = Response st \<and> ok st \<longrightarrow>
               tr = [Confirm ConfirmRemove True, Fetch (RemoveRequest url exId),
                     Settled (RemoveRequest url exId) res, Reload] \<and> c = Fulfilled) \<and>
            (answer \<and> res = Response st \<and> \<not> ok st \<longrightarrow>
               tr = [Confirm ConfirmRemove True, Fetch (RemoveRequest url exId),
                     Settled (RemoveRequest url exId) res, Alert RemoveFailed] \<and>
               p' = p \<and> c = Fulfilled)"
    using i1 i2 i3 i4 i5 p by blast
  have delete: "sel = Some plan \<and> plan \<noteq> [] \<longrightarrow>
            ((\<exists>r. Fetch r \<in> set tr2) \<longleftrightarrow> answer2) \<and>
            (\<not> answer2 \<longrightarrow> tr2 = [Confirm ConfirmDelete False]) \<and>
            (answer2 \<and> res2 = Response st2 \<and> ok st2 \<longrightarrow>
               tr2 = [Confirm ConfirmDelete True, Fetch (DeleteRequest (''/plans/'' @ plan @ ''/delete'')),
                      Settled (DeleteRequest (''/plans/'' @ plan @ ''/delete'')) res2, Reload]) \<and>
            (answer2 \<and> res2 = Response st2 \<and> \<not> ok st2 \<longrightarrow>
               tr2 = [Confirm ConfirmDelete True, Fetch (DeleteRequest (''/plans/'' @ plan @ ''/delete'')),
                      Settled (DeleteRequest (''/plans/'' @ plan @ ''/delete'')) res2,
                      Alert DeleteFailed])"
    using j1 j3 j4 j5 by blast
  have m1: "btn = None \<longrightarrow> tr = [] \<and> p' = p"
    using n1 p by simp
  have m2: "btn \<noteq> None \<and> \<not> truthy removeUrl \<longrightarrow> tr = [Alert RemoveUrlMissing] \<and> p' = p"
    using n2 p by simp
  have m3: "Confirm ConfirmRemove False \<in> set tr \<longrightarrow> tr = [Confirm ConfirmRemove False] \<and> p' = p"
    using a3 p by simp
  have m5: "\<forall>r s. Settled r (Response s) \<in> set tr \<and> \<not> ok s \<longrightarrow>
            Reload \<notin> set tr \<and> last tr = Alert RemoveFailed \<and> p' = p"
    using a5 p by simp
  show ?thesis
    by (rule conjI remove m1 m2 a1 a2 m3 a4 m5 delete b1 b3 b4 b5)+
qed

theorem removal_request_iff_confirmed_witness:
  "(\<exists>p' tr c tr2 c2.
      click_remove (Some ''/plans/1/remove'') (Some ''7'') True (Response 200) abc_page = (p', tr, c) \<and>
      click_delete (Some ''1'') True (Response 204) = (tr2, c2) \<and>
      tr = [Confirm ConfirmRemove True, Fetch (RemoveRequest ''/plans/1/remove'' ''7''),
            Settled (RemoveRequest ''/plans/1/remove'' ''7'') (Response 200), Reload] \<and>
      tr2 = [Confirm ConfirmDelete True, Fetch (DeleteRequest (''/plans/'' @ ''1'' @ ''/delete'')),
             Settled (DeleteRequest (''/plans/'' @ ''1'' @ ''/delete'')) (Response 204), Reload]) \<and>
   (\<exists>p' tr c tr2 c2.
      click_remove (Some ''/plans/1/remove'') (Some ''7'') True (Response 500) abc_page = (p', tr, c) \<and>
      click_delete (Some ''1'') True (Response 500) = (tr2, c2) \<and>
      (tr = [Confirm ConfirmRemove True, Fetch (RemoveRequest ''/plans/1/remove'' ''7''),
             Settled (RemoveRequest ''/plans/1/remove'' ''7'') (Response 500), Alert RemoveFailed] \<and>
       p' = abc_page \<and> c = Fulfilled) \<and>
      tr2 = [Confirm ConfirmDelete True, Fetch (DeleteRequest (''/plans/'' @ ''1'' @ ''/delete'')),
             Settled (DeleteRequest (''/plans/'' @ ''1'' @ ''/delete'')) (Response 500),
             Alert DeleteFailed]) \<and>
   (\<exists>p' tr c tr2 c2.
      click_remove (Some ''/plans/1/remove'') (Some ''7'') False (Response 200) abc_page = (p', tr, c) \<and>
      click_delete (Some ''1'') False (Response 200) = (tr2, c2) \<and>
      (tr = [Confirm ConfirmRemove False] \<and> p' = abc_page \<and> c = Fulfilled) \<and>
      tr2 = [Confirm ConfirmDelete False])"
proof -
  have k200: "ok 200" and k204: "ok 204" and k500: "\<not> ok 500"
    by (simp_all add: ok_def)
  have pre: "Some ''/plans/1/remove'' = Some ''/plans/1/remove'' \<and> ''/plans/1/remove'' \<noteq> [] \<and>
      Some ''7'' = Some ''7''"
    by simp
  have pre2: "Some ''1'' = Some ''1'' \<and> ''1'' \<noteq> []"
    by simp
  have yes200: "True \<and> Response 200 = Response 200 \<and> ok 200"
    and yes204: "True \<and> Response 204 = Response 204 \<and> ok 204"
    and yes500: "True \<and> Response 500 = Response 500 \<and> \<not> ok 500"
    and no: "\<not> False"
    using k200 k204 k500 by simp_all
  obtain p1 t1 c1 where a: "click_remove (Some ''/plans/1/remove'') (Some ''7'') True (Response 200) abc_page = (p1, t1, c1)"
    by (metis prod_cases3)
  obtain d1 e1 where a': "click_delete (Some ''1'') True (Response 204) = (d1, e1)"
    by (metis surj_pair)
  obtain p2 t2 c2 where b: "click_remove (Some ''/plans/1/remove'') (Some ''7'') True (Response 500) abc_page = (p2, t2, c2)"
    by (metis prod_cases3)
  obtain d2 e2 where b': "click_delete (Some ''1'') True (Response 500) = (d2, e2)"
    by (metis surj_pair)
  obtain p3 t3 c3 where c: "click_remove (Some ''/plans/1/remove'') (Some ''7'') False (Response 200) abc_page = (p3, t3, c3)"
    by (metis prod_cases3)
  obtain d3 e3 where c': "click_delete (Some ''1'') False (Response 200) = (d3, e3)"
    by (metis surj_pair)
  note A = removal_request_iff_confirmed [OF a a', where url = "''/plans/1/remove''" and exId = "''7''"
      and st = 200 and plan = "''1''" and ?st2.0 = 204]
  note B = removal_request_iff_confirmed [OF b b', where url = "''/plans/1/remove''" and exId = "''7''"
      and st = 500 and plan = "''1''" and ?st2.0 = 500]
  note C = removal_request_iff_confirmed [OF c c', where url = "''/plans/1/remove''" and exId = "''7''"
      and st = 200 and plan = "''1''" and ?st2.0 = 200]
  note A1 = A [THEN conjunct1, THEN mp, OF pre] and A9 = A [THEN conjunct2, THEN conjunct2, THEN conjunct2, THEN conjunct2, THEN conjunct2, THEN conjunct2, THEN conjunct2, THEN conjunct2, THEN conjunct1, THEN mp, OF pre2]
  note B1 = B [THEN conjunct1, THEN mp, OF pre] and B9 = B [THEN conjunct2, THEN conjunct2, THEN conjunct2, THEN conjunct2, THEN conjunct2, THEN conjunct2, THEN conjunct2, THEN conjunct2, THEN conjunct1, THEN mp, OF pre2]
  note C1 = C [THEN conjunct1, THEN mp, OF pre] and C9 = C [THEN conjunct2, THEN conjunct2, THEN conjunct2, THEN conjunct2, THEN conjunct2, THEN conjunct2, THEN conjunct2, THEN conjunct2, THEN conjunct1, THEN mp, OF pre2]
  note r1 = A1 [THEN conjunct2, THEN conjunct2, THEN conjunct2, THEN conjunct1, THEN mp, OF yes200, THEN conjunct1]
  note s1 = A9 [THEN conjunct2, THEN conjunct2, THEN conjunct1, THEN mp, OF yes204]
  note r2 = B1 [THEN conjunct2, THEN conjunct2, THEN conjunct2, THEN conjunct2, THEN mp, OF yes500]
  note s2 = B9 [THEN conjunct2, THEN conjunct2, THEN conjunct2, THEN mp, OF yes500]
  note r3 = C1 [THEN conjunct2, THEN conjunct2, THEN conjunct1, THEN mp, OF no]
  note s3 = C9 [THEN conjunct2, THEN conjunct1, THEN mp, OF no]
  have first: "\<exists>p' tr c tr2 c2.
      click_remove (Some ''/plans/1/remove'') (Some ''7'') True (Response 200) abc_page = (p', tr, c) \<and>
      click_delete (Some ''1'') True (Response 204) = (tr2, c2) \<and>
      tr = [Confirm ConfirmRemove True, Fetch (RemoveRequest ''/plans/1/remove'' ''7''),
            Settled (RemoveRequest ''/plans/1/remove'' ''7'') (Response 200), Reload] \<and>
      tr2 = [Confirm ConfirmDelete True, Fetch (DeleteRequest (''/plans/'' @ ''1'' @ ''/delete'')),
             Settled (DeleteRequest (''/plans/'' @ ''1'' @ ''/delete'')) (Response 204), Reload]"
    by (intro exI conjI) (rule a a' r1 s1)+
  have second: "\<exists>p' tr c tr2 c2.
      click_remove (Some ''/plans/1/remove'') (Some ''7'') True (Response 500) abc_page = (p', tr, c) \<and>
      click_delete (Some ''1'') True (Response 500) = (tr2, c2) \<and>
      (tr = [Confirm ConfirmRemove True, Fetch (RemoveRequest ''/plans/1/remove'' ''7''),
             Settled (RemoveRequest ''/plans/1/remove'' ''7'') (Response 500), Alert RemoveFailed] \<and>
       p' = abc_page \<and> c = Fulfilled) \<and>
      tr2 = [Confirm ConfirmDelete True, Fetch (DeleteRequest (''/plans/'' @ ''1'' @ ''/delete'')),
             Settled (DeleteRequest (''/plans/'' @ ''1'' @ ''/delete'')) (Response 500),
             Alert DeleteFailed]"
    using b b' r2 s2 by blast
  have third: "\<exists>p' tr c tr2 c2.
      click_remove (Some ''/plans/1/remove'') (Some ''7'') False (Response 200) abc_page = (p', tr, c) \<and>
      click_delete (Some ''1'') False (Response 200) = (tr2, c2) \<and>
      (tr = [Confirm ConfirmRemove False] \<and> p' = abc_page \<and> c = Fulfilled) \<and>
      tr2 = [Confirm ConfirmDelete False]"
    using c c' r3 s3 by blast
  from first second third show ?thesis by (intro conjI)
qed

text \<open>
  C6. On an input event on a field whose name ends in \<^verbatim>\<open>[sets]\<close>, the value becomes
  \<^verbatim>\<open>0\<close> when its number is below 0, \<^verbatim>\<open>99\<close> when its number is above 99, and stays as
  it is otherwise. So whenever the value is a number at all, the field afterwards holds a
  number between 0 and 99. Entering \<^verbatim>\<open>-5\<close> gives \<^verbatim>\<open>0\<close>, \<^verbatim>\<open>150\<close> gives \<^verbatim>\<open>99\<close> and
  \<^verbatim>\<open>42\<close> stays \<^verbatim>\<open>42\<close>.
\<close>

theorem input_clamp:
  assumes "is_sets_field el"
  shows "el_value (input_handler el) =
           (if js_less (Number_of_value (el_value el)) (Finite 0) then ''0''
            else if js_less (Finite 99) (Number_of_value (el_value el)) then ''99''
            else el_value el) \<and>
         el_name (input_handler el) = el_name el \<and>
         (Number_of_value (el_value el) \<noteq> NaN \<longrightarrow>
            (\<exists>x. Number_of_value (el_value (input_handler el)) = Finite x \<and> 0 \<le> x \<and> x \<le> 99)) \<and>
         el_value (input_handler (el\<lparr>el_value := ''-5''\<rparr>)) = ''0'' \<and>
         el_value (input_handler (el\<lparr>el_value := ''150''\<rparr>)) = ''99'' \<and>
         el_value (input_handler (el\<lparr>el_value := ''42''\<rparr>)) = ''42''"
proof -
  let ?v = "Number_of_value (el_value el)"
  have val: "el_value (input_handler el) =
           (if js_less ?v (Finite 0) then ''0''
            else if js_less (Finite 99) ?v then ''99''
            else el_value el)"
    using assms by (cases ?v) (simp_all add: input_handler_def Let_def ToString_0 ToString_99)
  have name: "el_name (input_handler el) = el_name el"
    by (simp add: input_handler_def Let_def)
  have range: "\<exists>x. Number_of_value (el_value (input_handler el)) = Finite x \<and> 0 \<le> x \<and> x \<le> 99"
    if "?v \<noteq> NaN"
  proof (cases "js_less ?v (Finite 0)")
    case True
    then have "el_value (input_handler el) = ToString 0" by (simp add: val ToString_0)
    then show ?thesis by (simp add: Number_of_value_0)
  next
    case False
    show ?thesis
    proof (cases "js_less (Finite 99) ?v")
      case True
      with False have "el_value (input_handler el) = ToString 99" by (simp add: val ToString_99)
      then show ?thesis by (simp add: Number_of_value_99)
    next
      case F2: False
      with False have "el_value (input_handler el) = el_value el" by (simp add: val)
      with js_less_range [OF that False F2] show ?thesis by simp
    qed
  qed
  have n5: "Number_of_value ''-5'' = Finite (- 5)" by code_simp
  have n150: "Number_of_value ''150'' = Finite 150" by code_simp
  have n42: "Number_of_value ''42'' = Finite 42" by code_simp
  have e1: "el_value (input_handler (el\<lparr>el_value := ''-5''\<rparr>)) = ''0''"
    using assms by (simp add: input_handler_def Let_def n5 ToString_0)
  have e2: "el_value (input_handler (el\<lparr>el_value := ''150''\<rparr>)) = ''99''"
    using assms by (simp add: input_handler_def Let_def n150 ToString_99)
  have e3: "el_value (input_handler (el\<lparr>el_value := ''42''\<rparr>)) = ''42''"
    using assms by (simp add: input_handler_def Let_def n42)
  from val name range e1 e2 e3 show ?thesis by blast
qed

theorem input_clamp_witness:
  "is_sets_field \<lparr>el_name = Some ''exercise[3][sets]'', el_value = ''120.5''\<rparr> \<and>
   Number_of_value ''120.5'' = Finite (241 / 2) \<and>
   el_value (input_handler \<lparr>el_name = Some ''exercise[3][sets]'', el_value = ''120.5''\<rparr>) = ''99'' \<and>
   el_value (input_handler \<lparr>el_name = Some ''exercise[3][sets]'', el_value = ''-5''\<rparr>) = ''0''"
proof -
  let ?el = "\<lparr>el_name = Some ''exercise[3][sets]'', el_value = ''120.5''\<rparr>"
  have h: "is_sets_field ?el"
    by (simp add: is_sets_field_def suffix_def)
  have n: "Number_of_value ''120.5'' = Finite (241 / 2)"
    by code_simp
  from input_clamp [OF h] h n show ?thesis by simp
qed

text \<open>
  C7. The script recomputes the positions when it starts. From then on, whatever events
  follow the start of a drag, if the rows are in their original order when the drag ends,
  every row has the position value it had before.
\<close>

theorem null_reorder_keeps_positions:
  assumes "distinct (children p0)"
    and "run (DragStart t # moves) (edit_js p0) = Inr q"
    and "children q = children p0"
  shows "run (DragStart t # moves @ [DragEnd]) (edit_js p0) = Inr (dragend q) \<and>
         positions (dragend q) = positions (edit_js p0)"
  using null_reorder_core [of "p0\<lparr>dragEl := None\<rparr>" t moves q] assms
  by (simp add: edit_js_def)

theorem null_reorder_keeps_positions_witness:
  "distinct (children abc_page) \<and>
   (\<exists>q. run (DragStart 1 # [DragOver abc_rect (Finite 190)]) (edit_js abc_page) = Inr q \<and>
      children q = children abc_page \<and>
      run (DragStart 1 # [DragOver abc_rect (Finite 190)] @ [DragEnd]) (edit_js abc_page) = Inr (dragend q) \<and>
      positions (dragend q) = [Some ''1'', Some ''2'', Some ''3''] \<and>
      positions (edit_js abc_page) = [Some ''1'', Some ''2'', Some ''3''])"
proof -
  have d: "distinct (children abc_page)"
    by (simp add: abc_page_def)
  have u: "edit_js abc_page = abc_page"
    by (simp add: edit_js_def drag_eval fun_eq_iff)
  define q where "q = (dragstart 1 abc_page)\<lparr>children := [0, 1, 2]\<rparr>"
  have r: "run (DragStart 1 # [DragOver abc_rect (Finite 190)]) (edit_js abc_page) = Inr q"
    by (simp add: u q_def dragover_eq abc_dragging abc_after_190) (simp add: drag_eval)
  have c: "children q = children abc_page"
    by (simp add: q_def abc_page_def)
  have p: "positions (edit_js abc_page) = [Some ''1'', Some ''2'', Some ''3'']"
    by (simp add: u) (simp add: drag_eval)
  from null_reorder_keeps_positions [OF d r c] d r c p show ?thesis
    by auto
qed

text \<open>
  C8. When the dragged row is the only row of the table, the list of candidates is empty,
  \<open>getDragAfterElement\<close> returns no row, and the dragover handler fails nowhere: it
  appends the dragged row to the container. The sequence of rows is then what it was, and
  a container that holds nothing but the row is unchanged.
\<close>

theorem dragover_alone:
  assumes "querySelectorAll_rows p = [d]" and "is_dragging (attrs p d)"
  shows "querySelectorAll_not_dragging p = [] \<and>
         getDragAfterElement rect p y = None \<and>
         dragover rect y p = Inr (p\<lparr>children := appendChild d (children p)\<rparr>) \<and>
         querySelectorAll_rows (p\<lparr>children := appendChild d (children p)\<rparr>) = querySelectorAll_rows p \<and>
         (children p = [d] \<longrightarrow> dragover rect y p = Inr p)"
proof -
  have rows: "filter (\<lambda>n. dnd_row (attrs p n)) (children p) = [d]"
    using assms(1) by (simp add: querySelectorAll_rows_def)
  have els: "querySelectorAll_not_dragging p = []"
    using assms(2) by (simp add: querySelectorAll_not_dragging_def filter_conj_filter rows)
  have after: "getDragAfterElement rect p y = None"
    by (simp add: getDragAfterElement_def els)
  have dragging: "querySelector_dragging p = Some d"
    using assms(2) by (simp add: querySelector_dragging_def find_conj_filter rows)
  have over: "dragover rect y p = Inr (p\<lparr>children := appendChild d (children p)\<rparr>)"
    by (simp add: dragover_def after dragging)
  have "d \<in> set (filter (\<lambda>n. dnd_row (attrs p n)) (children p))"
    by (simp add: rows)
  then have dnd: "dnd_row (attrs p d)" by simp
  have "filter (\<lambda>n. dnd_row (attrs p n)) (remove1 d (children p)) =
        remove1 d (filter (\<lambda>n. dnd_row (attrs p n)) (children p))"
    by (rule filter_remove1)
  then have same: "querySelectorAll_rows (p\<lparr>children := appendChild d (children p)\<rparr>) = querySelectorAll_rows p"
    using dnd by (simp add: querySelectorAll_rows_def appendChild_def rows)
  have "children p = [d] \<longrightarrow> dragover rect y p = Inr p"
    by (simp add: over appendChild_def)
  with els after over same show ?thesis by blast
qed

theorem dragover_alone_witness:
  "querySelectorAll_rows (dragstart 0 (abc_page\<lparr>children := [0]\<rparr>)) = [0] \<and>
   is_dragging (attrs (dragstart 0 (abc_page\<lparr>children := [0]\<rparr>)) 0) \<and>
   getDragAfterElement abc_rect (dragstart 0 (abc_page\<lparr>children := [0]\<rparr>)) (Finite 300) = None \<and>
   dragover abc_rect (Finite 300) (dragstart 0 (abc_page\<lparr>children := [0]\<rparr>)) =
     Inr (dragstart 0 (abc_page\<lparr>children := [0]\<rparr>))"
proof -
  let ?p = "dragstart 0 (abc_page\<lparr>children := [0]\<rparr>)"
  have h1: "querySelectorAll_rows ?p = [0]"
    by (simp add: abc_page_def dragstart_def closest_dnd_row_def querySelectorAll_rows_def)
  have h2: "is_dragging (attrs ?p 0)"
    by (simp add: abc_page_def dragstart_def closest_dnd_row_def)
  have c: "children ?p = [0]"
    by (simp add: abc_page_def dragstart_def closest_dnd_row_def)
  from dragover_alone [OF h1 h2, of abc_rect "Finite 300"] c h1 h2 show ?thesis by blast
qed

text \<open>
  C9. A dragover event never fails and changes nothing but the order of the children:
  the store of the nodes, hence every position value, is as before; the children are the
  same nodes, each as often as before; and all nodes other than the dragged one keep
  their relative order. Without a dragged row nothing changes.
\<close>

theorem dragover_only_reorders:
  "\<exists>p'. dragover rect y p = Inr p' \<and>
     attrs p' = attrs p \<and> dragEl p' = dragEl p \<and>
     positions p' = map (\<lambda>n. position_value (attrs p n)) (querySelectorAll_rows p') \<and>
     mset (children p') = mset (children p) \<and>
     (distinct (children p) \<longrightarrow> distinct (children p')) \<and>
     (case querySelector_dragging p of
        None \<Rightarrow> p' = p
      | Some d \<Rightarrow> filter (\<lambda>n. n \<noteq> d) (children p') = filter (\<lambda>n. n \<noteq> d) (children p))"
proof -
  from dragover_Inr [of rect y p] obtain p' where p': "dragover rect y p = Inr p'"
    "attrs p' = attrs p" "dragEl p' = dragEl p" "mset (children p') = mset (children p)"
    by blast
  have "distinct (children p) \<longrightarrow> distinct (children p')"
    using p'(4) by (metis mset_eq_imp_distinct_iff)
  moreover have "case querySelector_dragging p of
        None \<Rightarrow> p' = p
      | Some d \<Rightarrow> filter (\<lambda>n. n \<noteq> d) (children p') = filter (\<lambda>n. n \<noteq> d) (children p)"
    using p'(1) by (auto simp: dragover_eq filter_move_before split: option.splits)
  moreover have "positions p' = map (\<lambda>n. position_value (attrs p n)) (querySelectorAll_rows p')"
    by (simp add: positions_def p'(2))
  ultimately show ?thesis using p' by blast
qed

theorem dragover_only_reorders_witness:
  "\<exists>p'. dragover abc_rect (Finite 110) (dragstart 2 abc_page) = Inr p' \<and>
     children p' = [2, 0, 1] \<and>
     attrs p' = attrs (dragstart 2 abc_page) \<and>
     positions p' = [Some ''3'', Some ''1'', Some ''2'']"
proof -
  have c: "children (dragstart 2 abc_page) = [0, 1, 2]" "distinct (children (dragstart 2 abc_page))"
    by (simp_all add: drag_eval)
  have q: "querySelector_dragging (dragstart 2 abc_page) = Some 2"
    by (simp add: drag_eval)
  have v: "map (\<lambda>n. position_value (attrs (dragstart 2 abc_page) n)) [2, 0, 1] =
      [Some ''3'', Some ''1'', Some ''2'']"
    by (simp add: drag_eval)
  from dragover_only_reorders [of abc_rect "Finite 110" "dragstart 2 abc_page"]
  obtain p' where p': "dragover abc_rect (Finite 110) (dragstart 2 abc_page) = Inr p'"
    "attrs p' = attrs (dragstart 2 abc_page)"
    "positions p' = map (\<lambda>n. position_value (attrs (dragstart 2 abc_page) n)) (querySelectorAll_rows p')"
    by blast
  have e: "dragover abc_rect (Finite 110) (dragstart 2 abc_page) =
      Inr ((dragstart 2 abc_page)\<lparr>children := [2, 0, 1]\<rparr>)"
    by (simp add: dragover_eq abc_dragging abc_after_110) (simp add: drag_eval)
  with p'(1) have ch: "children p' = [2, 0, 1]" by auto
  have "querySelectorAll_rows p' = [2, 0, 1]"
    by (simp add: querySelectorAll_rows_def ch p'(2)) (simp add: drag_eval)
  with p' v ch show ?thesis by simp
qed

text \<open>
  C10. On an input event on a field whose name ends in \<^verbatim>\<open>[sets]\<close>, a value that is not
  empty and whose number is \<open>NaN\<close> is left as it is, and so is every value whose number
  lies between 0 and 99. After entering \<^verbatim>\<open>abc\<close> the field holds \<^verbatim>\<open>abc\<close>, which is not a
  number between 0 and 99.
\<close>

theorem clamp_leaves_non_numbers:
  assumes "is_sets_field el"
  shows "(el_value el \<noteq> [] \<and> StringToNumber (el_value el) = NaN \<longrightarrow> input_handler el = el) \<and>
         (\<forall>x. Number_of_value (el_value el) = Finite x \<and> 0 \<le> x \<and> x \<le> 99 \<longrightarrow> input_handler el = el) \<and>
         StringToNumber ''abc'' = NaN \<and>
         input_handler (el\<lparr>el_value := ''abc''\<rparr>) = el\<lparr>el_value := ''abc''\<rparr> \<and>
         \<not> (\<exists>x. Number_of_value (el_value (input_handler (el\<lparr>el_value := ''abc''\<rparr>))) = Finite x
               \<and> 0 \<le> x \<and> x \<le> 99)"
proof -
  have nan: "input_handler el = el" if "el_value el \<noteq> []" "StringToNumber (el_value el) = NaN"
    using that by (simp add: input_handler_def Number_of_value_def Let_def)
  have fin: "input_handler el = el" if "Number_of_value (el_value el) = Finite x" "0 \<le> x" "x \<le> 99" for x
    using that by (simp add: input_handler_def Let_def)
  have abc: "StringToNumber ''abc'' = NaN" by code_simp
  have h: "input_handler (el\<lparr>el_value := ''abc''\<rparr>) = el\<lparr>el_value := ''abc''\<rparr>"
    using assms by (simp add: input_handler_def Number_of_value_def Let_def abc)
  have "\<not> (\<exists>x. Number_of_value (el_value (input_handler (el\<lparr>el_value := ''abc''\<rparr>))) = Finite x
               \<and> 0 \<le> x \<and> x \<le> 99)"
    by (simp add: h Number_of_value_def abc)
  with nan fin abc h show ?thesis by blast
qed

theorem clamp_leaves_non_numbers_witness:
  "is_sets_field \<lparr>el_name = Some ''exercise[3][sets]'', el_value = ''1e''\<rparr> \<and>
   StringToNumber ''1e'' = NaN \<and>
   input_handler \<lparr>el_name = Some ''exercise[3][sets]'', el_value = ''1e''\<rparr> =
     \<lparr>el_name = Some ''exercise[3][sets]'', el_value = ''1e''\<rparr> \<and>
   Number_of_value ''7.5'' = Finite (15 / 2) \<and>
   input_handler \<lparr>el_name = Some ''exercise[3][sets]'', el_value = ''7.5''\<rparr> =
     \<lparr>el_name = Some ''exercise[3][sets]'', el_value = ''7.5''\<rparr>"
proof -
  let ?a = "\<lparr>el_name = Some ''exercise[3][sets]'', el_value = ''1e''\<rparr>"
  let ?b = "\<lparr>el_name = Some ''exercise[3][sets]'', el_value = ''7.5''\<rparr>"
  have ha: "is_sets_field ?a" and hb: "is_sets_field ?b"
    by (simp_all add: is_sets_field_def suffix_def)
  have na: "StringToNumber ''1e'' = NaN" by code_simp
  have nb: "Number_of_value ''7.5'' = Finite (15 / 2)" by code_simp
  from clamp_leaves_non_numbers [OF ha] na have a: "input_handler ?a = ?a"
    by simp
  from clamp_leaves_non_numbers [OF hb]
  have "Number_of_value (el_value ?b) = Finite (15 / 2) \<and> (0::rat) \<le> 15 / 2 \<and> (15 / 2 :: rat) \<le> 99
      \<longrightarrow> input_handler ?b = ?b"
    by blast
  with nb have b: "input_handler ?b = ?b"
    by simp
  from a b ha na nb show ?thesis
    by simp
qed

end
